theory Spec2Isabelle
  imports Main "HOL-Library.Stream" "HOL-Library.Multiset"
begin

section \<open>The "Hello World" genetic string search\<close>

text \<open>
  The notebook evolves a pool of character lists towards a target string. It is Python 2:
  a character is a one-byte \<open>str\<close>, so \<open>ord\<close> ranges over \<open>0..255\<close> and \<open>chr\<close> raises
  \<open>ValueError\<close> outside that range; integers are unbounded. A character is a HOL
  \<^typ>\<open>char\<close> (eight bits), an integer is an \<^typ>\<open>int\<close>, and every exception the code can
  raise is a value of \<open>py_error\<close>.
\<close>

subsection \<open>Exceptions, \<open>ord\<close> and \<open>chr\<close>\<close>

datatype py_error = IndexError | ValueError

definition py_ord :: "char \<Rightarrow> int" where
  "py_ord c = of_char c"

definition py_chr :: "int \<Rightarrow> py_error + char" where
  "py_chr n = (if 0 \<le> n \<and> n < 256 then Inr (char_of n) else Inl ValueError)"

subsection \<open>\<open>calc_fitness\<close>\<close>

text \<open>
  \<^verbatim>\<open>
  def calc_fitness(source, target):
      fitval = 0
      for i in xrange(len(source)):
          fitval += (ord(target[i]) - ord(source[i])) ** 2
      return fitval
  \<close>
  The loop runs over the indices of \<open>source\<close>; \<open>target[i]\<close> is read first and raises
  \<open>IndexError\<close> when \<open>target\<close> is too short.
\<close>

function calc_fitness_loop :: "nat \<Rightarrow> char list \<Rightarrow> char list \<Rightarrow> int \<Rightarrow> py_error + int" where
  "calc_fitness_loop i source target fitval =
     (if i < length source then
        (if i < length target then
           calc_fitness_loop (Suc i) source target
             (fitval + (py_ord (target ! i) - py_ord (source ! i)) ^ 2)
         else Inl IndexError)
      else Inr fitval)"
  by pat_completeness auto
termination
  by (relation "measure (\<lambda>(i, source, target, fitval). length source - i)") auto

declare calc_fitness_loop.simps [simp del]

definition calc_fitness :: "char list \<Rightarrow> char list \<Rightarrow> py_error + int" where
  "calc_fitness source target = calc_fitness_loop 0 source target 0"

text \<open>The squared distance at one position, and its sum over the first \<open>n\<close> positions.\<close>

definition sq_dist :: "char list \<Rightarrow> char list \<Rightarrow> nat \<Rightarrow> int" where
  "sq_dist source target i = (py_ord (target ! i) - py_ord (source ! i)) ^ 2"

definition sq_dist_sum :: "char list \<Rightarrow> char list \<Rightarrow> nat \<Rightarrow> int" where
  "sq_dist_sum source target n = (\<Sum>i<n. sq_dist source target i)"

subsection \<open>The random source\<close>

text \<open>
  The generator of Python's \<open>random\<close> module is a library state the notebook only reads
  through \<open>randint\<close> and \<open>choice\<close>. It is modelled as the stream of raw draws still to
  come: each call takes the head of the stream, reduces it into the range it was asked
  for, and leaves the tail. Every value of the range is the result for some draw
  (lemmas \<open>randint_any\<close> and \<open>choice_any\<close>), so no outcome the library can produce is
  excluded; how likely an outcome is, is not modelled.
  \<open>randint(a, b)\<close> raises \<open>ValueError\<close> on an empty range, \<open>choice\<close> raises
  \<open>IndexError\<close> on an empty sequence.
\<close>

type_synonym rng = "nat stream"

definition randint :: "int \<Rightarrow> int \<Rightarrow> rng \<Rightarrow> py_error + (int \<times> rng)" where
  "randint a b g =
     (if b < a then Inl ValueError
      else Inr (a + int (shd g mod nat (b - a + 1)), stl g))"

definition choice :: "'a list \<Rightarrow> rng \<Rightarrow> py_error + ('a \<times> rng)" where
  "choice seq g =
     (if seq = [] then Inl IndexError
      else Inr (seq ! (shd g mod length seq), stl g))"

subsection \<open>List indexing and slicing\<close>

text \<open>
  \<open>xs[i]\<close> counts a negative index from the end and raises \<open>IndexError\<close> out of range.
  A slice bound is clipped into \<open>0..len(xs)\<close> instead. \<open>xs[a:b] = ys\<close> replaces the
  clipped stretch by \<open>ys\<close>, whatever the length of \<open>ys\<close>.
\<close>

definition list_index :: "nat \<Rightarrow> int \<Rightarrow> py_error + nat" where
  "list_index n i =
     (let j = (if i < 0 then int n + i else i)
      in if 0 \<le> j \<and> j < int n then Inr (nat j) else Inl IndexError)"

definition getitem :: "'a list \<Rightarrow> int \<Rightarrow> py_error + 'a" where
  "getitem xs i = (case list_index (length xs) i of Inl e \<Rightarrow> Inl e | Inr j \<Rightarrow> Inr (xs ! j))"

definition setitem :: "'a list \<Rightarrow> int \<Rightarrow> 'a \<Rightarrow> py_error + 'a list" where
  "setitem xs i v =
     (case list_index (length xs) i of Inl e \<Rightarrow> Inl e | Inr j \<Rightarrow> Inr (xs[j := v]))"

definition slice_bound :: "nat \<Rightarrow> int \<Rightarrow> nat" where
  "slice_bound n i = (if i < 0 then nat (max 0 (int n + i)) else min n (nat i))"

definition slice :: "'a list \<Rightarrow> int \<Rightarrow> int \<Rightarrow> 'a list" where
  "slice xs start stop =
     (let lo = slice_bound (length xs) start; hi = slice_bound (length xs) stop
      in take (hi - lo) (drop lo xs))"

definition slice_assign :: "'a list \<Rightarrow> int \<Rightarrow> int \<Rightarrow> 'a list \<Rightarrow> 'a list" where
  "slice_assign xs start stop ys =
     (let lo = slice_bound (length xs) start;
          hi = max lo (slice_bound (length xs) stop)
      in take lo xs @ ys @ drop hi xs)"

subsection \<open>Candidates and \<open>mutate\<close>\<close>

text \<open>
  A candidate is the dictionary \<open>{'dna': ..., 'fitness': ...}\<close>.
  \<^verbatim>\<open>
  def mutate(parent1, parent2, target):
      child_dna = parent1['dna'][:]
      start = random.randint(0, len(parent2['dna']) - 1)
      stop = random.randint(0, len(parent2['dna']) - 1)
      if start > stop:
          stop, start = start, stop
      child_dna[start:stop] = parent2['dna'][start:stop]
      char_pos = random.randint(0, len(child_dna) - 1)
      child_dna[char_pos] = chr(ord(child_dna[char_pos]) + random.randint(-1, 1))
      child_fitness = calc_fitness(child_dna, target)
      return {'dna': child_dna, 'fitness': child_fitness}
  \<close>
\<close>

record candidate =
  dna :: "char list"
  fitness :: int

definition mutate ::
  "candidate \<Rightarrow> candidate \<Rightarrow> char list \<Rightarrow> rng \<Rightarrow> py_error + (candidate \<times> rng)" where
  "mutate parent1 parent2 target g0 =
     (let child_dna = dna parent1 in
      case randint 0 (int (length (dna parent2)) - 1) g0 of Inl e \<Rightarrow> Inl e | Inr (start, g1) \<Rightarrow>
      case randint 0 (int (length (dna parent2)) - 1) g1 of Inl e \<Rightarrow> Inl e | Inr (stop, g2) \<Rightarrow>
      let (start, stop) = (if start > stop then (stop, start) else (start, stop));
          child_dna = slice_assign child_dna start stop (slice (dna parent2) start stop) in
      case randint 0 (int (length child_dna) - 1) g2 of Inl e \<Rightarrow> Inl e | Inr (char_pos, g3) \<Rightarrow>
      case getitem child_dna char_pos of Inl e \<Rightarrow> Inl e | Inr old \<Rightarrow>
      case randint (- 1) 1 g3 of Inl e \<Rightarrow> Inl e | Inr (delta, g4) \<Rightarrow>
      case py_chr (py_ord old + delta) of Inl e \<Rightarrow> Inl e | Inr new \<Rightarrow>
      case setitem child_dna char_pos new of Inl e \<Rightarrow> Inl e | Inr child_dna \<Rightarrow>
      case calc_fitness child_dna target of Inl e \<Rightarrow> Inl e | Inr child_fitness \<Rightarrow>
      Inr (\<lparr>dna = child_dna, fitness = child_fitness\<rparr>, g4))"

text \<open>
  For \<open>start \<le> stop\<close> within both genomes, the slice assignment of \<open>mutate\<close> leaves
  \<open>crossover\<close>: the first parent's genome with the stretch from \<open>start\<close> up to, not
  including, \<open>stop\<close> taken from the second parent (lemma \<open>slice_assign_crossover\<close>).
\<close>

definition crossover :: "char list \<Rightarrow> char list \<Rightarrow> nat \<Rightarrow> nat \<Rightarrow> char list" where
  "crossover d1 d2 start stop = take start d1 @ take (stop - start) (drop start d2) @ drop stop d1"

text \<open>
  \<^verbatim>\<open>
  def random_parent(gene_pool):
      index = random.randint(0, len(gene_pool)-1)
      return gene_pool[index]
  \<close>
\<close>

definition random_parent :: "'a list \<Rightarrow> rng \<Rightarrow> py_error + ('a \<times> rng)" where
  "random_parent gene_pool g =
     (case randint 0 (int (length gene_pool) - 1) g of Inl e \<Rightarrow> Inl e | Inr (index, g') \<Rightarrow>
      case getitem gene_pool index of Inl e \<Rightarrow> Inl e | Inr c \<Rightarrow> Inr (c, g'))"

subsection \<open>The starting pool\<close>

text \<open>
  \<open>GENES = string.letters + '!, '\<close>; \<open>string.letters\<close> is the library's lowercase then
  uppercase letters (its value in the default C locale is taken).
  \<^verbatim>\<open>
  gene_pool = list()
  for i in xrange(0, POPULATION):
      dna = [random.choice(GENES) for g in xrange(0, len(target))]
      fitness = calc_fitness(dna, target)
      candidate = {'dna': dna, 'fitness': fitness}
      gene_pool.append(candidate)
  \<close>
  In \<open>random_dna\<close> and \<open>create_pool\<close> the first argument counts the iterations left.
\<close>

definition POPULATION :: nat where
  "POPULATION = 20"

definition GENES :: "char list" where
  "GENES = ''abcdefghijklmnopqrstuvwxyzABCDEFGHIJKLMNOPQRSTUVWXYZ'' @ ''!, ''"

fun random_dna :: "nat \<Rightarrow> rng \<Rightarrow> py_error + (char list \<times> rng)" where
  "random_dna 0 g = Inr ([], g)"
| "random_dna (Suc n) g =
     (case choice GENES g of Inl e \<Rightarrow> Inl e | Inr (c, g') \<Rightarrow>
      case random_dna n g' of Inl e \<Rightarrow> Inl e | Inr (cs, g'') \<Rightarrow> Inr (c # cs, g''))"

fun create_pool ::
  "nat \<Rightarrow> char list \<Rightarrow> candidate list \<Rightarrow> rng \<Rightarrow> py_error + (candidate list \<times> rng)" where
  "create_pool 0 target gene_pool g = Inr (gene_pool, g)"
| "create_pool (Suc n) target gene_pool g =
     (case random_dna (length target) g of Inl e \<Rightarrow> Inl e | Inr (d, g') \<Rightarrow>
      case calc_fitness d target of Inl e \<Rightarrow> Inl e | Inr f \<Rightarrow>
      create_pool n target (gene_pool @ [\<lparr>dna = d, fitness = f\<rparr>]) g')"

subsection \<open>The evolution loop\<close>

text \<open>
  The module-level variables the loop updates are the fields of \<open>state\<close>.
  \<^verbatim>\<open>
  generation = 1
  fittest = list()
  while True:
      gene_pool.sort(key=lambda candidate: candidate['fitness'])
      fittest.append(gene_pool[0])
      parent1 = random_parent(gene_pool)
      parent2 = random_parent(gene_pool)
      child = mutate(parent1, parent2, target)
      if child['fitness'] < gene_pool[-1]['fitness']:
          gene_pool[-1] = child
      if gene_pool[0]['fitness'] == 0:
          break
      generation += 1
  \<close>
  \<open>list.sort\<close> is stable, as \<^const>\<open>sort_key\<close> is. \<open>loop_body\<close> is one pass through the
  body; its first component tells whether the pass ended in \<open>break\<close>. \<open>reproduce\<close> is the
  part of the body that draws the parents and makes the child, \<open>replace_worst\<close> the
  conditional assignment to \<open>gene_pool[-1]\<close>.
\<close>

record state =
  gene_pool :: "candidate list"
  generation :: int
  fittest :: "candidate list"

definition reproduce ::
  "candidate list \<Rightarrow> char list \<Rightarrow> rng \<Rightarrow> py_error + (candidate \<times> rng)" where
  "reproduce pool target g0 =
     (case random_parent pool g0 of Inl e \<Rightarrow> Inl e | Inr (parent1, g1) \<Rightarrow>
      case random_parent pool g1 of Inl e \<Rightarrow> Inl e | Inr (parent2, g2) \<Rightarrow>
      mutate parent1 parent2 target g2)"

definition replace_worst :: "candidate list \<Rightarrow> candidate \<Rightarrow> py_error + candidate list" where
  "replace_worst pool child =
     (case getitem pool (- 1) of Inl e \<Rightarrow> Inl e | Inr worst \<Rightarrow>
      if fitness child < fitness worst then setitem pool (- 1) child else Inr pool)"

definition loop_body ::
  "char list \<Rightarrow> state \<Rightarrow> rng \<Rightarrow> py_error + (bool \<times> state \<times> rng)" where
  "loop_body target s g =
     (let pool = sort_key fitness (gene_pool s) in
      case getitem pool 0 of Inl e \<Rightarrow> Inl e | Inr best \<Rightarrow>
      let hist = fittest s @ [best] in
      case reproduce pool target g of Inl e \<Rightarrow> Inl e | Inr (child, g') \<Rightarrow>
      case replace_worst pool child of Inl e \<Rightarrow> Inl e | Inr pool' \<Rightarrow>
      case getitem pool' 0 of Inl e \<Rightarrow> Inl e | Inr first \<Rightarrow>
      if fitness first = 0
      then Inr (True, \<lparr>gene_pool = pool', generation = generation s, fittest = hist\<rparr>, g')
      else Inr (False, \<lparr>gene_pool = pool', generation = generation s + 1, fittest = hist\<rparr>, g'))"

text \<open>
  The \<open>while True\<close> loop has no bound, so it may run forever: \<open>evolve\<close> is a partial
  function, \<open>None\<close> when the loop never leaves. \<open>generations k\<close> is the loop cut after
  at most \<open>k\<close> passes, for looking at a run pass by pass.
\<close>

partial_function (option) evolve ::
  "char list \<Rightarrow> state \<Rightarrow> rng \<Rightarrow> (py_error + state \<times> rng) option" where
  "evolve target s g =
     (case loop_body target s g of
        Inl e \<Rightarrow> Some (Inl e)
      | Inr (stop, s', g') \<Rightarrow> if stop then Some (Inr (s', g')) else evolve target s' g')"

fun generations ::
  "nat \<Rightarrow> char list \<Rightarrow> state \<Rightarrow> rng \<Rightarrow> py_error + (bool \<times> state \<times> rng)" where
  "generations 0 target s g = Inr (False, s, g)"
| "generations (Suc k) target s g =
     (case loop_body target s g of
        Inl e \<Rightarrow> Inl e
      | Inr (stop, s', g') \<Rightarrow> if stop then Inr (True, s', g') else generations k target s' g')"

text \<open>
  The cell from its first line to the loop, for a population size and a target.
  \<open>random.seed(314159265)\<close> fixes the draws of the run; the model takes them as the
  parameter \<open>g\<close>, so what is proved holds for that seed as for any other.
\<close>

definition initial_state :: "nat \<Rightarrow> char list \<Rightarrow> rng \<Rightarrow> py_error + (state \<times> rng)" where
  "initial_state n target g =
     (case create_pool n target [] g of Inl e \<Rightarrow> Inl e | Inr (pool, g') \<Rightarrow>
      Inr (\<lparr>gene_pool = pool, generation = 1, fittest = []\<rparr>, g'))"

text \<open>
  After the loop the cell runs
  \<^verbatim>\<open>
  for generation, best in enumerate(fittest):
      if not silent:
          print generation+1, ''.join(best['dna']), best['fitness']
  \<close>
  with \<open>silent = True\<close>: nothing is printed, but the loop variable is the module-level
  \<open>generation\<close>, which is bound to each index of \<open>fittest\<close> in turn. \<open>display_fittest\<close> is
  that loop, its first argument the index \<open>enumerate\<close> has reached; \<open>hello_world\<close> is the
  cell as a whole.
\<close>

fun display_fittest :: "nat \<Rightarrow> candidate list \<Rightarrow> state \<Rightarrow> state" where
  "display_fittest i [] s = s"
| "display_fittest i (best # rest) s = display_fittest (Suc i) rest (s\<lparr>generation := int i\<rparr>)"

definition hello_world :: "rng \<Rightarrow> (py_error + state \<times> rng) option" where
  "hello_world g =
     (case initial_state POPULATION ''Hello, world!'' g of
        Inl e \<Rightarrow> Some (Inl e)
      | Inr (s, g') \<Rightarrow>
          (case evolve ''Hello, world!'' s g' of
             None \<Rightarrow> None
           | Some (Inl e) \<Rightarrow> Some (Inl e)
           | Some (Inr (s', g'')) \<Rightarrow> Some (Inr (display_fittest 0 (fittest s') s', g''))))"

subsection \<open>The same code on a store\<close>

text \<open>
  In Python a genome is a list object and a candidate a dictionary object; \<open>gene_pool\<close>
  and \<open>fittest\<close> hold references to candidates, and an entry of \<open>fittest\<close> is the very
  object that is in the pool. To say that an object is not changed in place, the objects
  live in a store: an address is an index, allocation appends, and an assignment to an
  element of a list object updates the store at the address of that list. A candidate
  object holds the address of its genome and its fitness. \<open>deref\<close> reads a candidate
  object as the value the definitions above work on.
\<close>

record cand_obj =
  dna_ref :: nat
  fitness_val :: int

record heap =
  dna_objs :: "char list list"
  cand_objs :: "cand_obj list"

definition deref :: "heap \<Rightarrow> nat \<Rightarrow> candidate" where
  "deref h r = \<lparr>dna = dna_objs h ! dna_ref (cand_objs h ! r),
               fitness = fitness_val (cand_objs h ! r)\<rparr>"

definition valid_ref :: "heap \<Rightarrow> nat \<Rightarrow> bool" where
  "valid_ref h r \<longleftrightarrow> r < length (cand_objs h) \<and> dna_ref (cand_objs h ! r) < length (dna_objs h)"

definition heap_extends :: "heap \<Rightarrow> heap \<Rightarrow> bool" where
  "heap_extends h h' \<longleftrightarrow>
     take (length (dna_objs h)) (dna_objs h') = dna_objs h
     \<and> take (length (cand_objs h)) (cand_objs h') = cand_objs h"

text \<open>
  \<open>mutate\<close> again, line by line, on the store: \<open>parent1['dna'][:]\<close> allocates the copy at
  a new address \<open>child_dna\<close>; the slice assignment and the assignment to \<open>child_dna[char_pos]\<close>
  write to that address; the \<open>return\<close> allocates the new dictionary.
\<close>

definition mutate_store ::
  "nat \<Rightarrow> nat \<Rightarrow> char list \<Rightarrow> heap \<Rightarrow> rng \<Rightarrow> py_error + (nat \<times> heap \<times> rng)" where
  "mutate_store parent1 parent2 target h0 g0 =
     (let child_dna = length (dna_objs h0);
          h1 = h0\<lparr>dna_objs := dna_objs h0 @ [dna_objs h0 ! dna_ref (cand_objs h0 ! parent1)]\<rparr>;
          p2_dna = dna_ref (cand_objs h1 ! parent2) in
      case randint 0 (int (length (dna_objs h1 ! p2_dna)) - 1) g0 of Inl e \<Rightarrow> Inl e | Inr (start, g1) \<Rightarrow>
      case randint 0 (int (length (dna_objs h1 ! p2_dna)) - 1) g1 of Inl e \<Rightarrow> Inl e | Inr (stop, g2) \<Rightarrow>
      let (start, stop) = (if start > stop then (stop, start) else (start, stop));
          h2 = h1\<lparr>dna_objs := (dna_objs h1)[child_dna :=
                  slice_assign (dna_objs h1 ! child_dna) start stop
                    (slice (dna_objs h1 ! p2_dna) start stop)]\<rparr> in
      case randint 0 (int (length (dna_objs h2 ! child_dna)) - 1) g2 of Inl e \<Rightarrow> Inl e | Inr (char_pos, g3) \<Rightarrow>
      case getitem (dna_objs h2 ! child_dna) char_pos of Inl e \<Rightarrow> Inl e | Inr old \<Rightarrow>
      case randint (- 1) 1 g3 of Inl e \<Rightarrow> Inl e | Inr (delta, g4) \<Rightarrow>
      case py_chr (py_ord old + delta) of Inl e \<Rightarrow> Inl e | Inr new \<Rightarrow>
      case setitem (dna_objs h2 ! child_dna) char_pos new of Inl e \<Rightarrow> Inl e | Inr updated \<Rightarrow>
      let h3 = h2\<lparr>dna_objs := (dna_objs h2)[child_dna := updated]\<rparr> in
      case calc_fitness (dna_objs h3 ! child_dna) target of Inl e \<Rightarrow> Inl e | Inr child_fitness \<Rightarrow>
      let child = length (cand_objs h3);
          h4 = h3\<lparr>cand_objs := cand_objs h3 @ [\<lparr>dna_ref = child_dna, fitness_val = child_fitness\<rparr>]\<rparr>
      in Inr (child, h4, g4))"

text \<open>\<open>install h c\<close> is the store \<open>h\<close> with one more genome and one more candidate, those of \<open>c\<close>.\<close>

definition install :: "heap \<Rightarrow> candidate \<Rightarrow> heap" where
  "install h c = h\<lparr>dna_objs := dna_objs h @ [dna c],
                  cand_objs := cand_objs h @ [\<lparr>dna_ref = length (dna_objs h), fitness_val = fitness c\<rparr>]\<rparr>"

text \<open>
  The loop body on the store. The sort reorders the references in \<open>gene_pool\<close>;
  \<open>fittest.append(gene_pool[0])\<close> appends a reference; \<open>gene_pool[-1] = child\<close> overwrites
  a reference.
\<close>

record store_state =
  st_heap :: heap
  st_gene_pool :: "nat list"
  st_generation :: int
  st_fittest :: "nat list"

definition reproduce_store ::
  "nat list \<Rightarrow> char list \<Rightarrow> heap \<Rightarrow> rng \<Rightarrow> py_error + (nat \<times> heap \<times> rng)" where
  "reproduce_store pool target h g0 =
     (case random_parent pool g0 of Inl e \<Rightarrow> Inl e | Inr (parent1, g1) \<Rightarrow>
      case random_parent pool g1 of Inl e \<Rightarrow> Inl e | Inr (parent2, g2) \<Rightarrow>
      mutate_store parent1 parent2 target h g2)"

definition replace_worst_store :: "heap \<Rightarrow> nat list \<Rightarrow> nat \<Rightarrow> py_error + nat list" where
  "replace_worst_store h pool child =
     (case getitem pool (- 1) of Inl e \<Rightarrow> Inl e | Inr worst \<Rightarrow>
      if fitness_val (cand_objs h ! child) < fitness_val (cand_objs h ! worst)
      then setitem pool (- 1) child else Inr pool)"

definition loop_body_store ::
  "char list \<Rightarrow> store_state \<Rightarrow> rng \<Rightarrow> py_error + (bool \<times> store_state \<times> rng)" where
  "loop_body_store target s g =
     (let h = st_heap s;
          pool = sort_key (\<lambda>r. fitness_val (cand_objs h ! r)) (st_gene_pool s) in
      case getitem pool 0 of Inl e \<Rightarrow> Inl e | Inr best \<Rightarrow>
      let hist = st_fittest s @ [best] in
      case reproduce_store pool target h g of Inl e \<Rightarrow> Inl e | Inr (child, h', g') \<Rightarrow>
      case replace_worst_store h' pool child of Inl e \<Rightarrow> Inl e | Inr pool' \<Rightarrow>
      case getitem pool' 0 of Inl e \<Rightarrow> Inl e | Inr first \<Rightarrow>
      if fitness_val (cand_objs h' ! first) = 0
      then Inr (True, \<lparr>st_heap = h', st_gene_pool = pool', st_generation = st_generation s,
                       st_fittest = hist\<rparr>, g')
      else Inr (False, \<lparr>st_heap = h', st_gene_pool = pool', st_generation = st_generation s + 1,
                        st_fittest = hist\<rparr>, g'))"

text \<open>The state of the loop on the store, read as a state of values.\<close>

definition abstract_state :: "store_state \<Rightarrow> state" where
  "abstract_state s =
     \<lparr>gene_pool = map (deref (st_heap s)) (st_gene_pool s),
      generation = st_generation s,
      fittest = map (deref (st_heap s)) (st_fittest s)\<rparr>"

subsection \<open>The invariant of the pool\<close>

text \<open>
  A candidate is well formed for a target when its genome has the target's length and its
  \<open>fitness\<close> entry is what \<open>calc_fitness\<close> returns for its genome.
\<close>

definition well_formed :: "char list \<Rightarrow> candidate \<Rightarrow> bool" where
  "well_formed target c \<longleftrightarrow>
     length (dna c) = length target \<and> calc_fitness (dna c) target = Inr (fitness c)"

section \<open>Properties of the fitness function\<close>

lemma py_ord_eq_iff: "py_ord c = py_ord d \<longleftrightarrow> c = d"
  by (simp add: py_ord_def)

lemma sq_dist_nonneg: "0 \<le> sq_dist source target i"
  by (simp add: sq_dist_def)

lemma sq_dist_zero_iff: "sq_dist source target i = 0 \<longleftrightarrow> source ! i = target ! i"
  by (auto simp: sq_dist_def py_ord_eq_iff)

lemma sq_dist_sum_nonneg: "0 \<le> sq_dist_sum source target n"
  unfolding sq_dist_sum_def by (rule sum_nonneg) (rule sq_dist_nonneg)

lemma sq_dist_sum_zero_iff:
  "sq_dist_sum source target n = 0 \<longleftrightarrow> (\<forall>i<n. source ! i = target ! i)"
proof -
  have "sq_dist_sum source target n = 0 \<longleftrightarrow> (\<forall>i\<in>{..<n}. sq_dist source target i = 0)"
    unfolding sq_dist_sum_def
    by (rule sum_nonneg_eq_0_iff) (simp_all add: sq_dist_nonneg)
  then show ?thesis
    by (auto simp: sq_dist_zero_iff)
qed

lemma calc_fitness_loop_in_range:
  "i \<le> length source \<Longrightarrow> length source \<le> length target \<Longrightarrow>
   calc_fitness_loop i source target fitval =
     Inr (fitval + (\<Sum>k = i..<length source. sq_dist source target k))"
proof (induction i source target fitval rule: calc_fitness_loop.induct)
  case (1 i source target fitval)
  show ?case
  proof (cases "i < length source")
    case True
    with "1.prems" have lt: "i < length target" by simp
    from True have "Suc i \<le> length source" by simp
    from "1.IH" [OF True lt this "1.prems"(2)] True lt show ?thesis
      by (subst calc_fitness_loop.simps)
         (simp add: sum.atLeast_Suc_lessThan sq_dist_def add.assoc)
  next
    case False
    with "1.prems" have "i = length source" by simp
    then show ?thesis
      by (subst calc_fitness_loop.simps) simp
  qed
qed

lemma calc_fitness_loop_too_short:
  "i \<le> length target \<Longrightarrow> length target < length source \<Longrightarrow>
   calc_fitness_loop i source target fitval = Inl IndexError"
proof (induction i source target fitval rule: calc_fitness_loop.induct)
  case (1 i source target fitval)
  from "1.prems" have lt: "i < length source" by simp
  show ?case
  proof (cases "i < length target")
    case True
    then have "Suc i \<le> length target" by simp
    from "1.IH" [OF lt True this "1.prems"(2)] lt True show ?thesis
      by (subst calc_fitness_loop.simps) simp
  next
    case False
    with lt show ?thesis
      by (subst calc_fitness_loop.simps) simp
  qed
qed

lemma calc_fitness_prefix:
  "length source \<le> length target \<Longrightarrow>
   calc_fitness source target = Inr (sq_dist_sum source target (length source))"
  using calc_fitness_loop_in_range [of 0 source target 0]
  by (simp add: calc_fitness_def sq_dist_sum_def atLeast0LessThan)

lemma calc_fitness_IndexError:
  "length target < length source \<Longrightarrow> calc_fitness source target = Inl IndexError"
  using calc_fitness_loop_too_short [of 0 target source 0]
  by (simp add: calc_fitness_def)

lemma calc_fitness_nonneg: "calc_fitness source target = Inr v \<Longrightarrow> 0 \<le> v"
proof (cases "length source \<le> length target")
  case True
  assume "calc_fitness source target = Inr v"
  with calc_fitness_prefix [OF True] show ?thesis
    by (simp add: sq_dist_sum_nonneg)
next
  case False
  assume "calc_fitness source target = Inr v"
  with False calc_fitness_IndexError [of target source] show ?thesis
    by simp
qed

text \<open>
  Claim C2. For a genome and a target of equal length, the fitness function returns the
  sum over all positions of the squared difference of the ordinals of the target's and the
  genome's characters; the value is never negative, and it is zero exactly when the genome
  equals the target.
\<close>

theorem calc_fitness_equal_length:
  assumes "length genome = length target"
  shows "calc_fitness genome target =
           Inr (\<Sum>i<length genome. (py_ord (target ! i) - py_ord (genome ! i)) ^ 2)
         \<and> 0 \<le> (\<Sum>i<length genome. (py_ord (target ! i) - py_ord (genome ! i)) ^ 2)
         \<and> ((\<Sum>i<length genome. (py_ord (target ! i) - py_ord (genome ! i)) ^ 2) = 0
              \<longleftrightarrow> genome = target)"
proof -
  let ?v = "\<Sum>i<length genome. (py_ord (target ! i) - py_ord (genome ! i)) ^ 2"
  have v: "?v = sq_dist_sum genome target (length genome)"
    by (simp add: sq_dist_sum_def sq_dist_def)
  from assms have "length genome \<le> length target" by simp
  then have "calc_fitness genome target = Inr ?v"
    unfolding v by (rule calc_fitness_prefix)
  moreover have "0 \<le> ?v"
    by (simp only: v sq_dist_sum_nonneg)
  moreover have "?v = 0 \<longleftrightarrow> genome = target"
    unfolding v sq_dist_sum_zero_iff using assms by (auto simp: list_eq_iff_nth_eq)
  ultimately show ?thesis by blast
qed

theorem calc_fitness_equal_length_witness:
  "length ''Hi!'' = length ''Hj!''
   \<and> calc_fitness ''Hi!'' ''Hj!'' = Inr 1
   \<and> calc_fitness ''Hi!'' ''Hi!'' = Inr 0"
  using calc_fitness_equal_length [of "''Hi!''" "''Hj!''"]
    calc_fitness_equal_length [of "''Hi!''" "''Hi!''"]
  by (simp add: py_ord_def lessThan_Suc numeral_3_eq_3)

text \<open>
  Claim C3, as stated: a genome and a target of different lengths make the fitness
  function fail with a length-mismatch error, never return a value computed over the
  shorter length. The code has no length check: a genome shorter than the target is
  scored against the target's prefix.
\<close>

theorem calc_fitness_mismatch_counterexample:
  "length ''H'' \<noteq> length ''Hi'' \<and> calc_fitness ''H'' ''Hi'' = Inr 0"
  by (simp add: calc_fitness_def calc_fitness_loop.simps py_ord_def)

text \<open>
  Claim C3, amended. When the lengths differ, a genome longer than the target makes the
  fitness function raise \<open>IndexError\<close> (the out-of-range read of the target), and a genome
  shorter than the target is scored silently over the genome's length, that is against the
  target's prefix.
\<close>

theorem calc_fitness_length_mismatch:
  assumes "length genome \<noteq> length target"
  shows "calc_fitness genome target =
           (if length target < length genome then Inl IndexError
            else Inr (\<Sum>i<length genome. (py_ord (target ! i) - py_ord (genome ! i)) ^ 2))"
proof (cases "length target < length genome")
  case True
  then show ?thesis
    by (simp add: calc_fitness_IndexError)
next
  case False
  then have "length genome \<le> length target" by simp
  from calc_fitness_prefix [OF this] False show ?thesis
    by (simp add: sq_dist_sum_def sq_dist_def)
qed

theorem calc_fitness_length_mismatch_witness:
  "length ''Hi'' \<noteq> length ''H'' \<and> calc_fitness ''Hi'' ''H'' = Inl IndexError
   \<and> length ''G'' \<noteq> length ''Hi'' \<and> calc_fitness ''G'' ''Hi'' = Inr 1"
  using calc_fitness_length_mismatch [of "''Hi''" "''H''"]
    calc_fitness_length_mismatch [of "''G''" "''Hi''"]
  by (simp add: py_ord_def)

section \<open>The random source, indexing and slicing\<close>

lemma randint_nonempty:
  "a \<le> b \<Longrightarrow> randint a b g = Inr (a + int (shd g mod nat (b - a + 1)), stl g)"
  by (simp add: randint_def)

lemma randint_empty: "b < a \<Longrightarrow> randint a b g = Inl ValueError"
  by (simp add: randint_def)

lemma randint_Inr:
  assumes "randint a b g = Inr (v, g')"
  shows "a \<le> v \<and> v \<le> b \<and> g' = stl g"
proof -
  from assms have ab: "a \<le> b"
    by (simp add: randint_def split: if_splits)
  then have "0 < nat (b - a + 1)" by simp
  then have "shd g mod nat (b - a + 1) < nat (b - a + 1)"
    by (rule mod_less_divisor)
  then have "int (shd g mod nat (b - a + 1)) \<le> b - a"
    using ab by linarith
  with assms ab show ?thesis
    by (auto simp: randint_def)
qed

lemma randint_any:
  assumes "a \<le> v" and "v \<le> b"
  shows "randint a b (nat (v - a) ## g) = Inr (v, g)"
proof -
  from assms have "nat (v - a) < nat (b - a + 1)" by linarith
  then have "nat (v - a) mod nat (b - a + 1) = nat (v - a)" by simp
  with assms show ?thesis
    by (simp add: randint_def)
qed

lemma choice_any:
  "i < length seq \<Longrightarrow> choice seq (i ## g) = Inr (seq ! i, g)"
  by (auto simp: choice_def)

lemma choice_Inr:
  "choice seq g = Inr (c, g') \<Longrightarrow> c \<in> set seq \<and> g' = stl g"
  by (auto simp: choice_def split: if_splits)

lemma getitem_nat:
  "i < length xs \<Longrightarrow> getitem xs (int i) = Inr (xs ! i)"
  by (simp add: getitem_def list_index_def)

lemma setitem_nat:
  "i < length xs \<Longrightarrow> setitem xs (int i) v = Inr (xs[i := v])"
  by (simp add: setitem_def list_index_def)

lemma getitem_first:
  "getitem xs 0 = (if xs = [] then Inl IndexError else Inr (hd xs))"
  by (cases xs) (simp_all add: getitem_def list_index_def)

lemma getitem_last:
  "getitem xs (- 1) = (if xs = [] then Inl IndexError else Inr (last xs))"
proof (cases "xs = []")
  case True
  then show ?thesis by (simp add: getitem_def list_index_def)
next
  case False
  then have "nat (int (length xs) - 1) = length xs - 1" by (simp add: nat_diff_distrib')
  with False show ?thesis
    by (simp add: getitem_def list_index_def last_conv_nth Let_def)
qed

lemma setitem_last:
  "setitem xs (- 1) v = (if xs = [] then Inl IndexError else Inr (butlast xs @ [v]))"
proof (cases xs rule: rev_cases)
  case Nil
  then show ?thesis by (simp add: setitem_def list_index_def)
next
  case (snoc ys y)
  then show ?thesis
    by (simp add: setitem_def list_index_def Let_def)
qed

lemma slice_nat:
  "slice xs (int a) (int b) = take (b - a) (drop a xs)"
  by (auto simp: slice_def slice_bound_def Let_def min_def)

lemma slice_assign_nat:
  "a \<le> b \<Longrightarrow> slice_assign xs (int a) (int b) ys = take a xs @ ys @ drop b xs"
  by (auto simp: slice_assign_def slice_bound_def Let_def min_def max_def)

lemma slice_assign_crossover:
  "a \<le> b \<Longrightarrow> slice_assign d1 (int a) (int b) (slice d2 (int a) (int b)) = crossover d1 d2 a b"
  by (simp add: slice_nat slice_assign_nat crossover_def)

section \<open>\<open>mutate\<close>\<close>

lemma randint_index:
  "0 < n \<Longrightarrow> randint 0 (int n - 1) g = Inr (int (shd g mod n), stl g)"
  by (simp add: randint_def)

lemma randint_delta:
  "randint (- 1) 1 g = Inr (int (shd g mod 3) - 1, stl g)"
  by (simp add: randint_def)

lemma length_crossover:
  "start \<le> stop \<Longrightarrow> stop \<le> length d1 \<Longrightarrow> length d2 = length d1 \<Longrightarrow>
   length (crossover d1 d2 start stop) = length d1"
  by (simp add: crossover_def)

lemma crossover_nth:
  assumes "start \<le> stop" and "stop \<le> length d1" and "length d2 = length d1"
    and "i < length d1"
  shows "crossover d1 d2 start stop ! i = (if start \<le> i \<and> i < stop then d2 ! i else d1 ! i)"
proof -
  consider "i < start" | "start \<le> i" "i < stop" | "stop \<le> i" by linarith
  then show ?thesis
  proof cases
    case 1
    with assms show ?thesis
      by (simp add: crossover_def nth_append)
  next
    case 2
    then have "i - start < stop - start" by linarith
    with 2 assms show ?thesis
      by (simp add: crossover_def nth_append)
  next
    case 3
    with assms have "\<not> i - start < stop - start" and "stop + (i - start - (stop - start)) = i"
      by linarith+
    with 3 assms show ?thesis
      by (simp add: crossover_def nth_append)
  qed
qed

lemma mutate_unfold:
  assumes n1: "length (dna parent1) = n" and n2: "length (dna parent2) = n" and pos: "0 < n"
    and a_def: "a = r1 mod n" and b_def: "b = r2 mod n"
    and crossed_def: "crossed = crossover (dna parent1) (dna parent2) (min a b) (max a b)"
    and char_pos_def: "char_pos = r3 mod n"
    and delta_def: "delta = int (r4 mod 3) - 1"
  shows "mutate parent1 parent2 target (r1 ## r2 ## r3 ## r4 ## g) =
    (case py_chr (py_ord (crossed ! char_pos) + delta) of
       Inl e \<Rightarrow> Inl e
     | Inr new \<Rightarrow>
         (case calc_fitness (crossed[char_pos := new]) target of
            Inl e \<Rightarrow> Inl e
          | Inr f \<Rightarrow> Inr (\<lparr>dna = crossed[char_pos := new], fitness = f\<rparr>, g)))"
proof -
  from pos have a: "a < n" and b: "b < n" and cp: "char_pos < n"
    by (simp_all add: a_def b_def char_pos_def)
  have swap: "(if int a > int b then (int b, int a) else (int a, int b)) = (int (min a b), int (max a b))"
    by (simp add: min_def max_def)
  have sl: "slice_assign (dna parent1) (int (min a b)) (int (max a b))
              (slice (dna parent2) (int (min a b)) (int (max a b))) = crossed"
    by (simp add: slice_nat slice_assign_nat crossed_def crossover_def)
  have len: "length crossed = n"
    unfolding crossed_def using a b n1 n2 by (simp add: length_crossover)
  have r1: "randint 0 (int (length (dna parent2)) - 1) (r1 ## r2 ## r3 ## r4 ## g)
              = Inr (int a, r2 ## r3 ## r4 ## g)"
    using pos by (simp add: n2 randint_index a_def)
  have r2: "randint 0 (int (length (dna parent2)) - 1) (r2 ## r3 ## r4 ## g)
              = Inr (int b, r3 ## r4 ## g)"
    using pos by (simp add: n2 randint_index b_def)
  have r3: "randint 0 (int (length crossed) - 1) (r3 ## r4 ## g) = Inr (int char_pos, r4 ## g)"
    using pos by (simp add: len randint_index char_pos_def)
  have r4: "randint (- 1) 1 (r4 ## g) = Inr (delta, g)"
    by (simp add: randint_delta delta_def)
  have gi: "getitem crossed (int char_pos) = Inr (crossed ! char_pos)"
    using cp len by (simp add: getitem_nat)
  have si: "\<And>v. setitem crossed (int char_pos) v = Inr (crossed[char_pos := v])"
    using cp len by (simp add: setitem_nat)
  show ?thesis
    unfolding mutate_def Let_def r1 sum.case prod.case r2 swap sl r3 gi r4 si
    by (simp split: sum.splits)
qed

lemma crossover_map:
  assumes "start \<le> stop" and "stop \<le> length d1" and "length d2 = length d1"
  shows "crossover d1 d2 start stop =
           map (\<lambda>i. if start \<le> i \<and> i < stop then d2 ! i else d1 ! i) [0..<length d1]"
  using assms by (intro nth_equalityI) (simp_all add: length_crossover crossover_nth)

lemma py_chr_in_range: "0 \<le> n \<Longrightarrow> n < 256 \<Longrightarrow> py_chr n = Inr (char_of n)"
  by (simp add: py_chr_def)

lemma py_chr_out_of_range: "\<not> (0 \<le> n \<and> n < 256) \<Longrightarrow> py_chr n = Inl ValueError"
  by (simp add: py_chr_def)


lemma mutate_nul:
  "mutate \<lparr>dna = [CHR 0x00], fitness = 0\<rparr> \<lparr>dna = [CHR 0x00], fitness = 0\<rparr> [CHR 0x00]
     (0 ## 0 ## 0 ## 0 ## g) = Inl ValueError"
proof -
  have "mutate \<lparr>dna = [CHR 0x00], fitness = 0\<rparr> \<lparr>dna = [CHR 0x00], fitness = 0\<rparr> [CHR 0x00]
     (0 ## 0 ## 0 ## 0 ## g) =
    (case py_chr (py_ord ([CHR 0x00] ! 0) + (- 1)) of
       Inl e \<Rightarrow> Inl e
     | Inr new \<Rightarrow>
         (case calc_fitness ([CHR 0x00][0 := new]) [CHR 0x00] of
            Inl e \<Rightarrow> Inl e
          | Inr f \<Rightarrow> Inr (\<lparr>dna = [CHR 0x00][0 := new], fitness = f\<rparr>, g)))"
    by (rule mutate_unfold [where n = 1 and a = 0 and b = 0]) (simp_all add: crossover_def)
  then show ?thesis
    by (simp add: py_chr_def py_ord_def)
qed

lemma mutate_space:
  "mutate \<lparr>dna = '' '', fitness = 1600\<rparr> \<lparr>dna = '' '', fitness = 1600\<rparr> ''H''
     (0 ## 0 ## 0 ## 0 ## g) = Inr (\<lparr>dna = [CHR 0x1F], fitness = 1681\<rparr>, g)"
proof -
  have "mutate \<lparr>dna = '' '', fitness = 1600\<rparr> \<lparr>dna = '' '', fitness = 1600\<rparr> ''H''
     (0 ## 0 ## 0 ## 0 ## g) =
    (case py_chr (py_ord ('' '' ! 0) + (- 1)) of
       Inl e \<Rightarrow> Inl e
     | Inr new \<Rightarrow>
         (case calc_fitness ('' ''[0 := new]) ''H'' of
            Inl e \<Rightarrow> Inl e
          | Inr f \<Rightarrow> Inr (\<lparr>dna = '' ''[0 := new], fitness = f\<rparr>, g)))"
    by (rule mutate_unfold [where n = 1 and a = 0 and b = 0]) (simp_all add: crossover_def)
  moreover have "py_chr (py_ord ('' '' ! 0) + (- 1)) = Inr (CHR 0x1F)"
    by (simp add: py_chr_def py_ord_def char_of_def)
  moreover have "calc_fitness [CHR 0x1F] ''H'' = Inr 1681"
    by (simp add: calc_fitness_def calc_fitness_loop.simps py_ord_def)
  ultimately show ?thesis
    by simp
qed

lemma mutate_short_target:
  "mutate \<lparr>dna = ''ab'', fitness = 0\<rparr> \<lparr>dna = ''cd'', fitness = 0\<rparr> ''a''
     (0 ## 0 ## 0 ## 1 ## g) = Inl IndexError"
proof -
  have "mutate \<lparr>dna = ''ab'', fitness = 0\<rparr> \<lparr>dna = ''cd'', fitness = 0\<rparr> ''a''
     (0 ## 0 ## 0 ## 1 ## g) =
    (case py_chr (py_ord (''ab'' ! 0) + 0) of
       Inl e \<Rightarrow> Inl e
     | Inr new \<Rightarrow>
         (case calc_fitness (''ab''[0 := new]) ''a'' of
            Inl e \<Rightarrow> Inl e
          | Inr f \<Rightarrow> Inr (\<lparr>dna = ''ab''[0 := new], fitness = f\<rparr>, g)))"
    by (rule mutate_unfold [where n = 2 and a = 0 and b = 0]) (simp_all add: crossover_def)
  moreover have "py_chr (py_ord (''ab'' ! 0) + 0) = Inr (CHR ''a'')"
    by (simp add: py_chr_def py_ord_def char_of_def)
  moreover have "calc_fitness ''ab'' ''a'' = Inl IndexError"
    by (simp add: calc_fitness_IndexError)
  ultimately show ?thesis
    by simp
qed

lemma mutate_empty:
  "mutate \<lparr>dna = [], fitness = 0\<rparr> \<lparr>dna = [], fitness = 0\<rparr> [] g = Inl ValueError"
  by (simp add: mutate_def randint_def)

text \<open>
  Claim C4, as stated: for every pair of parents with genomes of equal length and every
  outcome of the draws, \<open>mutate\<close> returns a child. It does not when the perturbed ordinal
  leaves \<open>0..255\<close> (\<open>chr\<close> raises \<open>ValueError\<close>), when the genomes are empty
  (\<open>randint(0, -1)\<close> raises \<open>ValueError\<close>), or when the target is shorter than the
  genomes (\<open>calc_fitness\<close> raises \<open>IndexError\<close>).
\<close>

theorem mutate_child_counterexample:
  "mutate \<lparr>dna = [CHR 0x00], fitness = 0\<rparr> \<lparr>dna = [CHR 0x00], fitness = 0\<rparr> [CHR 0x00]
     (0 ## 0 ## 0 ## 0 ## sconst 0) = Inl ValueError
   \<and> mutate \<lparr>dna = [], fitness = 0\<rparr> \<lparr>dna = [], fitness = 0\<rparr> [] (sconst 0) = Inl ValueError
   \<and> mutate \<lparr>dna = ''ab'', fitness = 0\<rparr> \<lparr>dna = ''cd'', fitness = 0\<rparr> ''a''
       (0 ## 0 ## 0 ## 1 ## sconst 0) = Inl IndexError"
  by (simp only: mutate_nul mutate_empty mutate_short_target)

text \<open>
  Claim C4, amended. Let both parents' genomes have the same length \<open>n > 0\<close>, let the
  target be at least that long, and let \<open>r1\<close>, \<open>r2\<close>, \<open>r3\<close>, \<open>r4\<close> be the next four draws of the random source,
  whatever they are. With \<open>start \<le> stop < n\<close> the two drawn indices in order, \<open>crossed\<close>
  is the first parent's genome with the positions from \<open>start\<close> up to, not including,
  \<open>stop\<close> taken from the second parent; \<open>char_pos < n\<close> is the drawn position and
  \<open>delta\<close> the drawn value among \<open>-1\<close>, \<open>0\<close>, \<open>1\<close>. If the ordinal at \<open>char_pos\<close> plus
  \<open>delta\<close> lies in \<open>0..255\<close>, \<open>mutate\<close> returns the candidate whose genome is \<open>crossed\<close>
  with the character of that ordinal at \<open>char_pos\<close>, and whose fitness is the sum of the
  squared ordinal differences to the target over the \<open>n\<close> positions of the genome;
  otherwise it raises \<open>ValueError\<close>.
\<close>

theorem mutate_child:
  assumes "dna parent1 \<noteq> []"
    and "length (dna parent1) = n"
    and "length (dna parent2) = n"
    and "n \<le> length target"
    and "start = min (r1 mod n) (r2 mod n)"
    and "stop = max (r1 mod n) (r2 mod n)"
    and "crossed = map (\<lambda>i. if start \<le> i \<and> i < stop then dna parent2 ! i
                             else dna parent1 ! i) [0..<n]"
    and "char_pos = r3 mod n"
    and "delta = int (r4 mod 3) - 1"
    and "code = py_ord (crossed ! char_pos) + delta"
    and "child_dna = crossed[char_pos := char_of code]"
  shows "start \<le> stop \<and> stop < n \<and> char_pos < n \<and> delta \<in> {- 1, 0, 1} \<and>
         mutate parent1 parent2 target (r1 ## r2 ## r3 ## r4 ## g) =
           (if 0 \<le> code \<and> code < 256
            then Inr (\<lparr>dna = child_dna,
                       fitness = (\<Sum>i<n. (py_ord (target ! i) - py_ord (child_dna ! i)) ^ 2)\<rparr>,
                      g)
            else Inl ValueError)"
proof -
  let ?g = "r1 ## r2 ## r3 ## r4 ## g"
  define a where "a = r1 mod n"
  define b where "b = r2 mod n"
  from assms(1,2) have pos: "0 < n" by auto
  then have a: "a < n" and b: "b < n" and cp: "char_pos < n"
    by (simp_all add: a_def b_def assms(8))
  have cm: "crossed = crossover (dna parent1) (dna parent2) (min a b) (max a b)"
    unfolding assms(7) assms(5,6) a_def [symmetric] b_def [symmetric]
    using a b assms(2,3) crossover_map [of "min a b" "max a b" "dna parent1" "dna parent2"]
    by simp
  have len: "length child_dna = n"
    by (simp add: assms(11) assms(7))
  with assms(4) have "length child_dna \<le> length target"
    by simp
  from calc_fitness_prefix [OF this]
  have fit: "calc_fitness child_dna target =
               Inr (\<Sum>i<n. (py_ord (target ! i) - py_ord (child_dna ! i)) ^ 2)"
    by (simp add: sq_dist_sum_def sq_dist_def len)
  have "r4 mod 3 = 0 \<or> r4 mod 3 = 1 \<or> r4 mod 3 = 2"
    by linarith
  then have delta: "delta \<in> {- 1, 0, 1}"
    unfolding assms(9) by auto
  have mu: "mutate parent1 parent2 target ?g =
    (case py_chr code of
       Inl e \<Rightarrow> Inl e
     | Inr new \<Rightarrow>
         (case calc_fitness (crossed[char_pos := new]) target of
            Inl e \<Rightarrow> Inl e
          | Inr f \<Rightarrow> Inr (\<lparr>dna = crossed[char_pos := new], fitness = f\<rparr>, g)))"
    unfolding assms(10)
    by (rule mutate_unfold [OF assms(2,3) pos a_def b_def cm assms(8,9)])
  have mut: "mutate parent1 parent2 target ?g =
               (if 0 \<le> code \<and> code < 256
                then Inr (\<lparr>dna = child_dna,
                           fitness = (\<Sum>i<n. (py_ord (target ! i) - py_ord (child_dna ! i)) ^ 2)\<rparr>,
                          g)
                else Inl ValueError)"
  proof (cases "0 \<le> code \<and> code < 256")
    case True
    then have "py_chr code = Inr (char_of code)" by (simp add: py_chr_in_range)
    with True fit show ?thesis
      unfolding mu by (simp add: assms(11) [symmetric])
  next
    case False
    then have "py_chr code = Inl ValueError" by (rule py_chr_out_of_range)
    with False show ?thesis
      unfolding mu by simp
  qed
  from a b cp delta mut show ?thesis
    by (simp add: assms(5,6) a_def b_def)
qed

theorem mutate_child_witness:
  "dna \<lparr>dna = ''abc'', fitness = 5\<rparr> \<noteq> []
   \<and> length (dna \<lparr>dna = ''xyz'', fitness = 7\<rparr>) = length (dna \<lparr>dna = ''abc'', fitness = 5\<rparr>)
   \<and> length (dna \<lparr>dna = ''abc'', fitness = 5\<rparr>) \<le> length ''Hi!''
   \<and> mutate \<lparr>dna = ''abc'', fitness = 5\<rparr> \<lparr>dna = ''xyz'', fitness = 7\<rparr> ''Hi!''
        (0 ## 2 ## 1 ## 2 ## sconst 0)
      = Inr (\<lparr>dna = ''xzc'', fitness = 6949\<rparr>, sconst 0)"
proof -
  have crossed: "''xyc'' = map (\<lambda>i. if (0::nat) \<le> i \<and> i < 2 then dna \<lparr>dna = ''xyz'', fitness = 7\<rparr> ! i
      else dna \<lparr>dna = ''abc'', fitness = 5\<rparr> ! i) [0..<3]"
    by (simp add: upt_conv_Cons)
  have code: "(122::int) = py_ord (''xyc'' ! 1) + 1"
    by (simp add: py_ord_def)
  have child: "''xzc'' = ''xyc''[1 := char_of (122::int)]"
    by (simp add: char_of_def)
  have fit: "(\<Sum>i<(3::nat). (py_ord (''Hi!'' ! i) - py_ord (''xzc'' ! i)) ^ 2) = 6949"
    by (simp add: numeral_3_eq_3 lessThan_Suc py_ord_def)
  from mutate_child [of "\<lparr>dna = ''abc'', fitness = 5\<rparr>" 3 "\<lparr>dna = ''xyz'', fitness = 7\<rparr>"
      "''Hi!''" 0 0 2 2 "''xyc''" 1 1 1 2 122 "''xzc''" "sconst 0", OF _ _ _ _ _ _ crossed _ _ code child]
  show ?thesis
    by (simp add: fit)
qed

lemma py_ord_range: "0 \<le> py_ord c \<and> py_ord c < 256"
proof -
  have "py_ord c mod 256 = py_ord c"
    unfolding py_ord_def by (rule of_char_mod_256)
  moreover have "0 \<le> py_ord c mod 256" and "py_ord c mod 256 < 256"
    by simp_all
  ultimately show ?thesis by simp
qed

lemma py_ord_char_of: "0 \<le> n \<Longrightarrow> n < 256 \<Longrightarrow> py_ord (char_of n) = n"
  by (simp add: py_ord_def)

lemma mutate_perturbs:
  assumes n1: "length (dna parent1) = n" and n2: "length (dna parent2) = n" and pos: "0 < n"
    and tl: "n \<le> length target"
    and crossed: "crossed = crossover (dna parent1) (dna parent2)
                    (min (r1 mod n) (r2 mod n)) (max (r1 mod n) (r2 mod n))"
    and cp: "char_pos = r3 mod n"
    and delta: "delta = int (r4 mod 3) - 1"
  shows "case mutate parent1 parent2 target (r1 ## r2 ## r3 ## r4 ## g) of
           Inl e \<Rightarrow> e = ValueError
             \<and> (py_ord (crossed ! char_pos) + delta = - 1 \<or> py_ord (crossed ! char_pos) + delta = 256)
         | Inr (child, g') \<Rightarrow> g' = g \<and> length (dna child) = n
             \<and> py_ord (dna child ! char_pos) = py_ord (crossed ! char_pos) + delta
             \<and> (\<forall>j<n. j \<noteq> char_pos \<longrightarrow> dna child ! j = crossed ! j)"
proof -
  let ?code = "py_ord (crossed ! char_pos) + delta"
  from pos have a: "r1 mod n < n" and b: "r2 mod n < n" and c: "char_pos < n"
    by (simp_all add: cp)
  with n1 n2 have len: "length crossed = n"
    by (simp add: crossed length_crossover)
  have "r4 mod 3 = 0 \<or> r4 mod 3 = 1 \<or> r4 mod 3 = 2" by linarith
  then have d: "delta = - 1 \<or> delta = 0 \<or> delta = 1"
    unfolding delta by auto
  note mu = mutate_unfold [OF n1 n2 pos refl refl crossed cp delta, of target g]
  show ?thesis
  proof (cases "0 \<le> ?code \<and> ?code < 256")
    case True
    then have chr: "py_chr ?code = Inr (char_of ?code)" by (simp add: py_chr_in_range)
    from len tl have "length (crossed[char_pos := char_of ?code]) \<le> length target" by simp
    from calc_fitness_prefix [OF this] obtain f where
      f: "calc_fitness (crossed[char_pos := char_of ?code]) target = Inr f" by blast
    from True have "py_ord (char_of ?code) = ?code" by (simp add: py_ord_char_of)
    with c len show ?thesis
      by (simp add: mu chr f)
  next
    case False
    then have chr: "py_chr ?code = Inl ValueError" by (rule py_chr_out_of_range)
    from False d py_ord_range [of "crossed ! char_pos"]
    have "?code = - 1 \<or> ?code = 256" by linarith
    then show ?thesis
      by (simp add: mu chr)
  qed
qed

text \<open>
  Claim C9. The point mutation adds the drawn value to the ordinal without wrapping or
  clamping. For parents with genomes of the same length \<open>n > 0\<close>, a target at least that
  long and any four draws: when \<open>mutate\<close> returns a child, the ordinal of the child's
  character at the drawn position is exactly the ordinal of the crossed genome's character
  there plus the drawn value, and every other position is the crossed genome's; when it
  raises, the error is \<open>ValueError\<close> and that sum is \<open>-1\<close> or \<open>256\<close>. And there are parents
  and a target that all use only characters of \<open>GENES\<close>, and draws, for which \<open>mutate\<close>
  returns a child with a character whose ordinal is the parent's ordinal there minus one,
  which is not in \<open>GENES\<close> and lies below the ordinal of every character of \<open>GENES\<close>.
\<close>

theorem mutate_leaves_alphabet:
  "(length (dna parent1) = n \<and> length (dna parent2) = n \<and> 0 < n \<and> n \<le> length target
      \<and> crossed = crossover (dna parent1) (dna parent2)
                     (min (r1 mod n) (r2 mod n)) (max (r1 mod n) (r2 mod n))
      \<and> char_pos = r3 mod n \<and> delta = int (r4 mod 3) - 1
    \<longrightarrow> (case mutate parent1 parent2 target (r1 ## r2 ## r3 ## r4 ## g) of
           Inl e \<Rightarrow> e = ValueError
             \<and> (py_ord (crossed ! char_pos) + delta = - 1
                 \<or> py_ord (crossed ! char_pos) + delta = 256)
         | Inr (child, g') \<Rightarrow> g' = g \<and> length (dna child) = n
             \<and> py_ord (dna child ! char_pos) = py_ord (crossed ! char_pos) + delta
             \<and> (\<forall>j<n. j \<noteq> char_pos \<longrightarrow> dna child ! j = crossed ! j)))
   \<and> (\<exists>p1 p2 t d child d' i.
         set (dna p1) \<subseteq> set GENES \<and> set (dna p2) \<subseteq> set GENES \<and> set t \<subseteq> set GENES
         \<and> length (dna p2) = length (dna p1) \<and> length t = length (dna p1)
         \<and> mutate p1 p2 t d = Inr (child, d')
         \<and> length (dna child) = length (dna p1) \<and> i < length (dna child)
         \<and> py_ord (dna child ! i) = py_ord (dna p1 ! i) - 1
         \<and> dna child ! i \<notin> set GENES
         \<and> list_all (\<lambda>x. py_ord (dna child ! i) < py_ord x) GENES)"
proof -
  have exact: "length (dna parent1) = n \<and> length (dna parent2) = n \<and> 0 < n \<and> n \<le> length target
      \<and> crossed = crossover (dna parent1) (dna parent2)
                     (min (r1 mod n) (r2 mod n)) (max (r1 mod n) (r2 mod n))
      \<and> char_pos = r3 mod n \<and> delta = int (r4 mod 3) - 1
    \<longrightarrow> (case mutate parent1 parent2 target (r1 ## r2 ## r3 ## r4 ## g) of
           Inl e \<Rightarrow> e = ValueError
             \<and> (py_ord (crossed ! char_pos) + delta = - 1
                 \<or> py_ord (crossed ! char_pos) + delta = 256)
         | Inr (child, g') \<Rightarrow> g' = g \<and> length (dna child) = n
             \<and> py_ord (dna child ! char_pos) = py_ord (crossed ! char_pos) + delta
             \<and> (\<forall>j<n. j \<noteq> char_pos \<longrightarrow> dna child ! j = crossed ! j))"
    using mutate_perturbs [of parent1 n parent2 target crossed r1 r2 char_pos r3 delta r4 g]
    by blast
  let ?p = "\<lparr>dna = '' '', fitness = 1600\<rparr>"
  let ?c = "\<lparr>dna = [CHR 0x1F], fitness = 1681\<rparr>"
  have run: "mutate ?p ?p ''H'' (0 ## 0 ## 0 ## 0 ## sconst 0) = Inr (?c, sconst 0)"
    by (rule mutate_space)
  have alphabet: "set (dna ?p) \<subseteq> set GENES" "set ''H'' \<subseteq> set GENES"
    by (simp_all add: GENES_def)
  have lens: "length (dna ?p) = length (dna ?p)" "length ''H'' = length (dna ?p)"
    "length (dna ?c) = length (dna ?p)" "0 < length (dna ?c)"
    by simp_all
  have out: "py_ord (dna ?c ! 0) = py_ord (dna ?p ! 0) - 1"
    "dna ?c ! 0 \<notin> set GENES"
    "list_all (\<lambda>x. py_ord (dna ?c ! 0) < py_ord x) GENES"
    by (simp_all add: GENES_def py_ord_def)
  from run alphabet lens out
  have leaves: "\<exists>p1 p2 t d child d' i.
         set (dna p1) \<subseteq> set GENES \<and> set (dna p2) \<subseteq> set GENES \<and> set t \<subseteq> set GENES
         \<and> length (dna p2) = length (dna p1) \<and> length t = length (dna p1)
         \<and> mutate p1 p2 t d = Inr (child, d')
         \<and> length (dna child) = length (dna p1) \<and> i < length (dna child)
         \<and> py_ord (dna child ! i) = py_ord (dna p1 ! i) - 1
         \<and> dna child ! i \<notin> set GENES
         \<and> list_all (\<lambda>x. py_ord (dna child ! i) < py_ord x) GENES"
    by blast
  from exact leaves show ?thesis by (rule conjI)
qed

theorem mutate_leaves_alphabet_witness:
  "length (dna \<lparr>dna = '' '', fitness = 1600\<rparr>) = 1
   \<and> mutate \<lparr>dna = '' '', fitness = 1600\<rparr> \<lparr>dna = '' '', fitness = 1600\<rparr> ''H''
        (0 ## 0 ## 0 ## 0 ## sconst 0)
      = Inr (\<lparr>dna = [CHR 0x1F], fitness = 1681\<rparr>, sconst 0)
   \<and> py_ord (dna \<lparr>dna = [CHR 0x1F], fitness = 1681\<rparr> ! 0) = py_ord (CHR '' '') + (- 1)
   \<and> CHR 0x1F \<notin> set GENES"
proof -
  let ?p = "\<lparr>dna = '' '', fitness = 1600\<rparr>"
  let ?c = "\<lparr>dna = [CHR 0x1F], fitness = 1681\<rparr>"
  note run = mutate_space [of "sconst 0"]
  have cr: "'' '' = crossover (dna ?p) (dna ?p) (min (0 mod 1) (0 mod 1)) (max (0 mod 1) (0 mod 1))"
    by (simp add: crossover_def)
  have hyp: "length (dna ?p) = 1 \<and> length (dna ?p) = 1 \<and> (0::nat) < 1 \<and> 1 \<le> length ''H''
      \<and> '' '' = crossover (dna ?p) (dna ?p) (min (0 mod 1) (0 mod 1)) (max (0 mod 1) (0 mod 1))
      \<and> (0::nat) = 0 mod 1 \<and> (- 1::int) = int (0 mod 3) - 1"
    using cr by simp
  from mutate_leaves_alphabet [of ?p 1 ?p "''H''" "'' ''" 0 0 0 0 "- 1" 0 "sconst 0"] hyp
  have "case mutate ?p ?p ''H'' (0 ## 0 ## 0 ## 0 ## sconst 0) of
           Inl e \<Rightarrow> e = ValueError
             \<and> (py_ord ('' '' ! 0) + (- 1) = - 1 \<or> py_ord ('' '' ! 0) + (- 1) = 256)
         | Inr (child, g') \<Rightarrow> g' = sconst 0 \<and> length (dna child) = 1
             \<and> py_ord (dna child ! 0) = py_ord ('' '' ! 0) + (- 1)
             \<and> (\<forall>j<1. j \<noteq> 0 \<longrightarrow> dna child ! j = '' '' ! j)"
    by blast
  then have "py_ord (dna ?c ! 0) = py_ord (CHR '' '') + (- 1)"
    unfolding run by simp
  moreover have "CHR 0x1F \<notin> set GENES" by (simp add: GENES_def)
  moreover have "length (dna ?p) = 1" by simp
  ultimately show ?thesis using run by blast
qed

section \<open>One pass through the loop body\<close>

lemma stream_four: "\<exists>r1 r2 r3 r4 g4. g = r1 ## r2 ## r3 ## r4 ## (g4 :: rng)"
  by (metis stream.collapse)

lemma mutate_Inr:
  assumes "mutate parent1 parent2 target g = Inr (child, g')"
    and "length (dna parent1) = n" and "length (dna parent2) = n"
  shows "0 < n \<and> length (dna child) = n \<and> calc_fitness (dna child) target = Inr (fitness child)"
proof -
  have pos: "0 < n"
  proof (rule ccontr)
    assume "\<not> 0 < n"
    with assms(3) have "mutate parent1 parent2 target g = Inl ValueError"
      by (simp add: mutate_def randint_def)
    with assms(1) show False by simp
  qed
  obtain r1 r2 r3 r4 g4 where g: "g = r1 ## r2 ## r3 ## r4 ## g4"
    using stream_four by blast
  define a where "a = r1 mod n"
  define b where "b = r2 mod n"
  define crossed where "crossed = crossover (dna parent1) (dna parent2) (min a b) (max a b)"
  define char_pos where "char_pos = r3 mod n"
  define delta where "delta = int (r4 mod 3) - 1"
  from pos have "a < n" and "b < n" by (simp_all add: a_def b_def)
  with assms(2,3) have len: "length crossed = n"
    by (simp add: crossed_def length_crossover)
  note mu = mutate_unfold [OF assms(2,3) pos a_def b_def crossed_def char_pos_def delta_def,
      of target g4, folded g]
  from assms(1) obtain new f where
    "child = \<lparr>dna = crossed[char_pos := new], fitness = f\<rparr>"
    "calc_fitness (crossed[char_pos := new]) target = Inr f"
    unfolding mu by (auto split: sum.splits)
  with len pos show ?thesis by simp
qed

lemma random_parent_Inr:
  assumes "random_parent pool g = Inr (c, g')"
  shows "c \<in> set pool"
proof -
  from assms obtain index where r: "randint 0 (int (length pool) - 1) g = Inr (index, g')"
    and gi: "getitem pool index = Inr c"
    by (auto simp: random_parent_def split: sum.splits)
  from randint_Inr [OF r] have "0 \<le> index" and "index < int (length pool)" by auto
  then have "getitem pool index = Inr (pool ! nat index)" and "nat index < length pool"
    using getitem_nat [of "nat index" pool] by auto
  with gi show ?thesis by auto
qed

lemma reproduce_Inr:
  assumes "reproduce pool target g = Inr (child, g')"
    and "list_all (\<lambda>c. length (dna c) = n) pool"
  shows "length (dna child) = n \<and> calc_fitness (dna child) target = Inr (fitness child)"
proof -
  from assms(1) obtain parent1 g1 parent2 g2 where
    p1: "random_parent pool g = Inr (parent1, g1)" and
    p2: "random_parent pool g1 = Inr (parent2, g2)" and
    mu: "mutate parent1 parent2 target g2 = Inr (child, g')"
    by (auto simp: reproduce_def split: sum.splits)
  from random_parent_Inr [OF p1] random_parent_Inr [OF p2] assms(2)
  have "length (dna parent1) = n" and "length (dna parent2) = n"
    by (auto simp: list_all_iff)
  from mutate_Inr [OF mu this] show ?thesis by simp
qed

lemma replace_worst_Inr:
  assumes "replace_worst pool child = Inr pool'"
  shows "pool \<noteq> [] \<and>
         pool' = (if fitness child < fitness (last pool) then butlast pool @ [child] else pool)"
  using assms
  by (auto simp: replace_worst_def getitem_last setitem_last split: if_splits sum.splits)

lemma loop_body_Inr:
  assumes "loop_body target s g = Inr (stop, s', g')"
  defines "pool \<equiv> sort_key fitness (gene_pool s)"
  shows "\<exists>child. pool \<noteq> [] \<and> reproduce pool target g = Inr (child, g')
           \<and> gene_pool s' = (if fitness child < fitness (last pool)
                              then butlast pool @ [child] else pool)
           \<and> fittest s' = fittest s @ [hd pool]
           \<and> stop = (fitness (hd (gene_pool s')) = 0)
           \<and> generation s' = (if stop then generation s else generation s + 1)"
proof -
  from assms(1) obtain best child pool' first where
    b: "getitem pool 0 = Inr best" and
    r: "reproduce pool target g = Inr (child, g')" and
    w: "replace_worst pool child = Inr pool'" and
    f: "getitem pool' 0 = Inr first" and
    res: "(stop, s') = (if fitness first = 0
            then (True, \<lparr>gene_pool = pool', generation = generation s, fittest = fittest s @ [best]\<rparr>)
            else (False, \<lparr>gene_pool = pool', generation = generation s + 1,
                          fittest = fittest s @ [best]\<rparr>))"
    unfolding loop_body_def pool_def Let_def
    by (auto split: sum.splits if_splits)
  from b have ne: "pool \<noteq> []" and best: "best = hd pool"
    by (auto simp: getitem_first split: if_splits)
  from f have first: "first = hd pool'"
    by (auto simp: getitem_first split: if_splits)
  from replace_worst_Inr [OF w] have
    p': "pool' = (if fitness child < fitness (last pool) then butlast pool @ [child] else pool)"
    by simp
  from res have "gene_pool s' = pool'" and "fittest s' = fittest s @ [best]"
    and "stop = (fitness first = 0)"
    and "generation s' = (if stop then generation s else generation s + 1)"
    by (auto split: if_splits)
  with ne r p' best first show ?thesis by auto
qed

section \<open>The starting pool and the invariant of the pool\<close>

lemma random_dna_Inr:
  "\<exists>cs g'. random_dna n g = Inr (cs, g') \<and> length cs = n \<and> set cs \<subseteq> set GENES"
proof (induction n arbitrary: g)
  case 0
  show ?case by simp
next
  case (Suc n)
  have ne: "GENES \<noteq> []" by (simp add: GENES_def)
  then have c: "choice GENES g = Inr (GENES ! (shd g mod length GENES), stl g)"
    by (simp add: choice_def)
  from ne have in_genes: "GENES ! (shd g mod length GENES) \<in> set GENES"
    by simp
  from Suc.IH [of "stl g"] obtain cs g' where
    "random_dna n (stl g) = Inr (cs, g')" "length cs = n" "set cs \<subseteq> set GENES"
    by blast
  with c in_genes show ?case by simp
qed

lemma well_formed_new:
  "length d = length target \<Longrightarrow>
   \<exists>f. calc_fitness d target = Inr f \<and> well_formed target \<lparr>dna = d, fitness = f\<rparr>"
  by (simp add: well_formed_def calc_fitness_prefix)

lemma create_pool_Inr:
  assumes "list_all (well_formed target) pool0"
  shows "\<exists>pool g'. create_pool k target pool0 g = Inr (pool, g')
           \<and> length pool = length pool0 + k \<and> list_all (well_formed target) pool"
  using assms
proof (induction k arbitrary: pool0 g)
  case 0
  then show ?case by simp
next
  case (Suc k)
  from random_dna_Inr [of "length target" g] obtain d g1 where
    d: "random_dna (length target) g = Inr (d, g1)" and len: "length d = length target"
    by blast
  from well_formed_new [OF len] obtain f where
    f: "calc_fitness d target = Inr f" and wf: "well_formed target \<lparr>dna = d, fitness = f\<rparr>"
    by blast
  from Suc.prems wf have "list_all (well_formed target) (pool0 @ [\<lparr>dna = d, fitness = f\<rparr>])"
    by simp
  from Suc.IH [OF this, of g1] d f show ?case
    by auto
qed

lemma initial_state_Inr:
  "\<exists>pool g'. initial_state n target g = Inr (\<lparr>gene_pool = pool, generation = 1, fittest = []\<rparr>, g')
     \<and> length pool = n \<and> list_all (well_formed target) pool"
proof -
  from create_pool_Inr [of target "[]" n g] obtain pool g' where
    "create_pool n target [] g = Inr (pool, g')" "length pool = n"
    "list_all (well_formed target) pool"
    by auto
  then show ?thesis
    by (auto simp: initial_state_def)
qed

lemma sort_key_fitness_facts:
  "length (sort_key fitness pool) = length pool"
  "set (sort_key fitness pool) = set pool"
  "sorted (map fitness (sort_key fitness pool))"
  by simp_all

lemma list_all_sort_key: "list_all P (sort_key fitness pool) = list_all P pool"
  by (simp add: list_all_iff)

lemma loop_body_pool:
  assumes "loop_body target s g = Inr (stop, s', g')"
    and "list_all (well_formed target) (gene_pool s)"
  shows "length (gene_pool s') = length (gene_pool s) \<and> list_all (well_formed target) (gene_pool s')"
proof -
  let ?pool = "sort_key fitness (gene_pool s)"
  from loop_body_Inr [OF assms(1)] obtain child where
    ne: "?pool \<noteq> []" and r: "reproduce ?pool target g = Inr (child, g')" and
    p': "gene_pool s' = (if fitness child < fitness (last ?pool)
                         then butlast ?pool @ [child] else ?pool)"
    by blast
  from assms(2) have wf: "list_all (well_formed target) ?pool"
    by (simp only: list_all_sort_key)
  then have "list_all (\<lambda>c. length (dna c) = length target) ?pool"
    by (simp add: list_all_iff well_formed_def)
  from reproduce_Inr [OF r this] have wfc: "well_formed target child"
    by (simp add: well_formed_def)
  from wf have wfb: "list_all (well_formed target) (butlast ?pool)"
    by (auto simp: list_all_iff dest: in_set_butlastD)
  from ne have "gene_pool s \<noteq> []" by auto
  then have "length (butlast ?pool @ [child]) = length (gene_pool s)"
    by simp
  with p' wf wfb wfc show ?thesis
    by (simp split: if_splits)
qed

lemma generations_pool:
  assumes "generations k target s g = Inr (stop, s', g')"
    and "list_all (well_formed target) (gene_pool s)"
  shows "length (gene_pool s') = length (gene_pool s) \<and> list_all (well_formed target) (gene_pool s')"
  using assms
proof (induction k arbitrary: s g)
  case 0
  then show ?case by simp
next
  case (Suc k)
  from Suc.prems(1) obtain b s1 g1 where
    lb: "loop_body target s g = Inr (b, s1, g1)"
    by (auto split: sum.splits)
  note step = loop_body_pool [OF lb Suc.prems(2)]
  show ?case
  proof (cases b)
    case True
    with Suc.prems(1) lb have "s' = s1" by simp
    with step show ?thesis by simp
  next
    case False
    with Suc.prems(1) lb have "generations k target s1 g1 = Inr (stop, s', g')" by simp
    from Suc.IH [OF this] step show ?thesis by simp
  qed
qed

section \<open>The history of fittest candidates, and the loop\<close>

lemma hd_sort_key_least:
  assumes "c \<in> set pool"
  shows "fitness (hd (sort_key fitness pool)) \<le> fitness c"
proof -
  let ?p = "sort_key fitness pool"
  from assms have in_p: "c \<in> set ?p" by simp
  then have ne: "?p \<noteq> []" by (metis empty_iff list.set(1))
  from in_p obtain i where i: "i < length ?p" "?p ! i = c"
    by (metis in_set_conv_nth)
  have "sorted (map fitness ?p)" by simp
  then have "map fitness ?p ! 0 \<le> map fitness ?p ! i"
    using i(1) by (intro sorted_nth_mono) simp_all
  moreover from ne have "0 < length ?p" by (metis length_greater_0_conv)
  ultimately have "fitness (?p ! 0) \<le> fitness (?p ! i)"
    using i(1) by (simp only: nth_map)
  with ne i show ?thesis
    by (simp add: hd_conv_nth)
qed

lemma last_sort_key_greatest:
  assumes "c \<in> set pool"
  shows "fitness c \<le> fitness (last (sort_key fitness pool))"
proof -
  let ?p = "sort_key fitness pool"
  from assms have in_p: "c \<in> set ?p" by simp
  then have ne: "?p \<noteq> []" by (metis empty_iff list.set(1))
  from in_p obtain i where i: "i < length ?p" "?p ! i = c"
    by (metis in_set_conv_nth)
  have "sorted (map fitness ?p)" by simp
  then have "map fitness ?p ! i \<le> map fitness ?p ! (length ?p - 1)"
    using i(1) by (intro sorted_nth_mono) simp_all
  moreover from ne have "0 < length ?p" by (metis length_greater_0_conv)
  then have "length ?p - 1 < length ?p" by linarith
  ultimately have "fitness (?p ! i) \<le> fitness (?p ! (length ?p - 1))"
    using i(1) by (simp only: nth_map)
  with ne i show ?thesis
    by (simp add: last_conv_nth)
qed

lemma hd_kept:
  assumes "pool \<noteq> []"
  shows "hd pool \<in> set (butlast pool) \<or> pool = [hd pool]"
  using assms by (cases pool rule: rev_cases) (auto simp: hd_append)

lemma loop_body_history:
  assumes lb: "loop_body target s g = Inr (stop, s', g')"
    and mono: "sorted_wrt (\<lambda>x y. fitness y \<le> fitness x) (fittest s)"
    and low: "fittest s \<noteq> [] \<Longrightarrow> \<exists>c\<in>set (gene_pool s). fitness c \<le> fitness (last (fittest s))"
  shows "sorted_wrt (\<lambda>x y. fitness y \<le> fitness x) (fittest s')
         \<and> fittest s' \<noteq> []
         \<and> (\<exists>c\<in>set (gene_pool s'). fitness c \<le> fitness (last (fittest s')))"
proof -
  let ?pool = "sort_key fitness (gene_pool s)"
  from loop_body_Inr [OF lb] obtain child where
    ne: "?pool \<noteq> []" and
    p': "gene_pool s' = (if fitness child < fitness (last ?pool)
                         then butlast ?pool @ [child] else ?pool)" and
    h': "fittest s' = fittest s @ [hd ?pool]"
    by blast
  have below: "fitness (hd ?pool) \<le> fitness x" if x: "x \<in> set (fittest s)" for x
  proof -
    from x have ne_h: "fittest s \<noteq> []" by auto
    from low [OF ne_h] obtain c where c: "c \<in> set (gene_pool s)"
      "fitness c \<le> fitness (last (fittest s))" by blast
    have "fitness (last (fittest s)) \<le> fitness x"
    proof (cases "x = last (fittest s)")
      case True
      then show ?thesis by simp
    next
      case False
      with x ne_h have "x \<in> set (butlast (fittest s))"
        by (metis append_butlast_last_id Un_iff empty_iff insert_iff list.set(1) list.set(2)
            set_append)
      moreover from mono ne_h
      have "sorted_wrt (\<lambda>x y. fitness y \<le> fitness x) (butlast (fittest s) @ [last (fittest s)])"
        by simp
      ultimately show ?thesis
        by (simp add: sorted_wrt_append)
    qed
    with hd_sort_key_least [OF c(1)] c(2) show ?thesis by linarith
  qed
  from mono below have m': "sorted_wrt (\<lambda>x y. fitness y \<le> fitness x) (fittest s')"
    by (simp add: h' sorted_wrt_append)
  have "\<exists>c\<in>set (gene_pool s'). fitness c \<le> fitness (hd ?pool)"
  proof (cases "fitness child < fitness (last ?pool)")
    case False
    from ne have "hd ?pool \<in> set ?pool" by (rule hd_in_set)
    with p' False show ?thesis by (metis order_refl)
  next
    case True
    from hd_kept [OF ne] show ?thesis
    proof
      assume "hd ?pool \<in> set (butlast ?pool)"
      with True p' show ?thesis by auto
    next
      assume "?pool = [hd ?pool]"
      then have "last ?pool = hd ?pool" by (metis last.simps)
      with True p' show ?thesis by auto
    qed
  qed
  with m' h' show ?thesis by simp
qed

lemma generations_history:
  assumes "generations k target s g = Inr (stop, s', g')"
    and "sorted_wrt (\<lambda>x y. fitness y \<le> fitness x) (fittest s)"
    and "fittest s \<noteq> [] \<Longrightarrow> \<exists>c\<in>set (gene_pool s). fitness c \<le> fitness (last (fittest s))"
  shows "sorted_wrt (\<lambda>x y. fitness y \<le> fitness x) (fittest s')"
  using assms
proof (induction k arbitrary: s g)
  case 0
  then show ?case by simp
next
  case (Suc k)
  from Suc.prems(1) obtain b s1 g1 where
    lb: "loop_body target s g = Inr (b, s1, g1)"
    by (auto split: sum.splits)
  note step = loop_body_history [OF lb Suc.prems(2,3)]
  show ?case
  proof (cases b)
    case True
    with Suc.prems(1) lb have "s' = s1" by simp
    with step show ?thesis by simp
  next
    case False
    with Suc.prems(1) lb have "generations k target s1 g1 = Inr (stop, s', g')" by simp
    from Suc.IH [OF this] step show ?thesis by simp
  qed
qed

lemma evolve_generations:
  "generations k target s g = Inr (True, s', g') \<Longrightarrow> evolve target s g = Some (Inr (s', g'))"
proof (induction k arbitrary: s g)
  case 0
  then show ?case by simp
next
  case (Suc k)
  from Suc.prems obtain b s1 g1 where
    lb: "loop_body target s g = Inr (b, s1, g1)"
    by (auto split: sum.splits)
  show ?case
  proof (cases b)
    case True
    with Suc.prems lb show ?thesis
      by (subst evolve.simps) simp
  next
    case False
    with Suc.prems lb have "generations k target s1 g1 = Inr (True, s', g')" by simp
    from Suc.IH [OF this] lb False show ?thesis
      by (subst evolve.simps) simp
  qed
qed

lemma evolve_Some:
  assumes "evolve target s g = Some r"
  shows "\<exists>k. (case r of Inl e \<Rightarrow> generations k target s g = Inl e
                | Inr (s', g') \<Rightarrow> generations k target s g = Inr (True, s', g'))"
proof (rule evolve.raw_induct [where P = "\<lambda>target s g r.
    \<exists>k. (case r of Inl e \<Rightarrow> generations k target s g = Inl e
           | Inr (s', g') \<Rightarrow> generations k target s g = Inr (True, s', g'))", OF _ assms],
    goal_cases)
  case (1 evolve' target s g r)
  show ?case
  proof (cases "loop_body target s g")
    case (Inl e)
    with 1(2) have "r = Inl e" by simp
    with Inl have "case r of Inl e \<Rightarrow> generations (Suc 0) target s g = Inl e
                | Inr (s', g') \<Rightarrow> generations (Suc 0) target s g = Inr (True, s', g')"
      by simp
    then show ?thesis ..
  next
    case (Inr x)
    then obtain b s1 g1 where lb: "loop_body target s g = Inr (b, s1, g1)"
      by (cases x) auto
    show ?thesis
    proof (cases b)
      case True
      with 1(2) lb have "r = Inr (s1, g1)" by simp
      with lb True have "case r of Inl e \<Rightarrow> generations (Suc 0) target s g = Inl e
                | Inr (s', g') \<Rightarrow> generations (Suc 0) target s g = Inr (True, s', g')"
        by simp
      then show ?thesis ..
    next
      case False
      with 1(2) lb have "evolve' target s1 g1 = Some r" by simp
      from 1(1) [OF this] obtain k where
        k: "case r of Inl e \<Rightarrow> generations k target s1 g1 = Inl e
                | Inr (s', g') \<Rightarrow> generations k target s1 g1 = Inr (True, s', g')"
        by blast
      with lb False have "case r of Inl e \<Rightarrow> generations (Suc k) target s g = Inl e
                | Inr (s', g') \<Rightarrow> generations (Suc k) target s g = Inr (True, s', g')"
        by (simp split: sum.splits)
      then show ?thesis ..
    qed
  qed
qed

lemma generations_last_pass:
  assumes "generations k target s g = Inr (True, s', g')"
  shows "\<exists>j s1 g1. generations j target s g = Inr (False, s1, g1)
           \<and> loop_body target s1 g1 = Inr (True, s', g')"
  using assms
proof (induction k arbitrary: s g)
  case 0
  then show ?case by simp
next
  case (Suc k)
  from Suc.prems obtain b s1 g1 where
    lb: "loop_body target s g = Inr (b, s1, g1)"
    by (auto split: sum.splits)
  show ?case
  proof (cases b)
    case True
    with Suc.prems lb have "loop_body target s g = Inr (True, s', g')" by simp
    moreover have "generations 0 target s g = Inr (False, s, g)" by simp
    ultimately show ?thesis by blast
  next
    case False
    with Suc.prems lb have "generations k target s1 g1 = Inr (True, s', g')" by simp
    from Suc.IH [OF this] obtain j s2 g2 where
      "generations j target s1 g1 = Inr (False, s2, g2)"
      "loop_body target s2 g2 = Inr (True, s', g')" by blast
    with lb False have "generations (Suc j) target s g = Inr (False, s2, g2)" by simp
    with \<open>loop_body target s2 g2 = Inr (True, s', g')\<close> show ?thesis by blast
  qed
qed

section \<open>A run with two candidates, pass by pass\<close>

text \<open>
  Target \<open>c\<close>, two candidates. The draws make the starting pool \<open>a\<close> (fitness 4) and
  \<open>b\<close> (fitness 1); the first pass mates \<open>b\<close> with itself and mutates it to \<open>c\<close>, which
  replaces \<open>a\<close> at the end of the sorted pool; the second pass finds \<open>c\<close> at the front
  after sorting and leaves the loop.
\<close>

lemma run_init:
  "initial_state 2 ''c'' (0 ## 1 ## g)
     = Inr (\<lparr>gene_pool = [\<lparr>dna = ''a'', fitness = 4\<rparr>, \<lparr>dna = ''b'', fitness = 1\<rparr>],
             generation = 1, fittest = []\<rparr>, g)"
proof -
  have a: "random_dna (length ''c'') (0 ## 1 ## g) = Inr (''a'', 1 ## g)"
    by (simp add: choice_def GENES_def)
  have b: "random_dna (length ''c'') (1 ## g) = Inr (''b'', g)"
    by (simp add: choice_def GENES_def)
  have fa: "calc_fitness ''a'' ''c'' = Inr 4"
    by (simp add: calc_fitness_prefix sq_dist_sum_def sq_dist_def py_ord_def)
  have fb: "calc_fitness ''b'' ''c'' = Inr 1"
    by (simp add: calc_fitness_prefix sq_dist_sum_def sq_dist_def py_ord_def)
  have "create_pool (Suc (Suc 0)) ''c'' [] (0 ## 1 ## g)
          = Inr ([\<lparr>dna = ''a'', fitness = 4\<rparr>, \<lparr>dna = ''b'', fitness = 1\<rparr>], g)"
    by (simp only: create_pool.simps a b fa fb sum.case prod.case append.simps)
  then show ?thesis
    by (simp add: initial_state_def numeral_2_eq_2)
qed

lemma mutate_b_up:
  "mutate \<lparr>dna = ''b'', fitness = 1\<rparr> \<lparr>dna = ''b'', fitness = 1\<rparr> ''c'' (0 ## 0 ## 0 ## 2 ## g)
     = Inr (\<lparr>dna = ''c'', fitness = 0\<rparr>, g)"
proof -
  let ?b = "\<lparr>dna = ''b'', fitness = 1\<rparr>"
  have "mutate ?b ?b ''c'' (0 ## 0 ## 0 ## 2 ## g) =
    (case py_chr (py_ord (''b'' ! 0) + 1) of
       Inl e \<Rightarrow> Inl e
     | Inr new \<Rightarrow>
         (case calc_fitness (''b''[0 := new]) ''c'' of
            Inl e \<Rightarrow> Inl e
          | Inr f \<Rightarrow> Inr (\<lparr>dna = ''b''[0 := new], fitness = f\<rparr>, g)))"
    by (rule mutate_unfold [where n = 1 and a = 0 and b = 0]) (simp_all add: crossover_def)
  moreover have "py_chr (py_ord (''b'' ! 0) + 1) = Inr (CHR ''c'')"
    by (simp add: py_chr_def py_ord_def char_of_def)
  moreover have "calc_fitness ''c'' ''c'' = Inr 0"
    by (simp add: calc_fitness_prefix sq_dist_sum_def sq_dist_def)
  ultimately show ?thesis
    by simp
qed

lemma mutate_c_same:
  "mutate \<lparr>dna = ''c'', fitness = 0\<rparr> \<lparr>dna = ''c'', fitness = 0\<rparr> ''c'' (0 ## 0 ## 0 ## 4 ## g)
     = Inr (\<lparr>dna = ''c'', fitness = 0\<rparr>, g)"
proof -
  let ?c = "\<lparr>dna = ''c'', fitness = 0\<rparr>"
  have "mutate ?c ?c ''c'' (0 ## 0 ## 0 ## 4 ## g) =
    (case py_chr (py_ord (''c'' ! 0) + 0) of
       Inl e \<Rightarrow> Inl e
     | Inr new \<Rightarrow>
         (case calc_fitness (''c''[0 := new]) ''c'' of
            Inl e \<Rightarrow> Inl e
          | Inr f \<Rightarrow> Inr (\<lparr>dna = ''c''[0 := new], fitness = f\<rparr>, g)))"
    by (rule mutate_unfold [where n = 1 and a = 0 and b = 0]) (simp_all add: crossover_def)
  moreover have "py_chr (py_ord (''c'' ! 0) + 0) = Inr (CHR ''c'')"
    by (simp add: py_chr_def py_ord_def char_of_def)
  moreover have "calc_fitness ''c'' ''c'' = Inr 0"
    by (simp add: calc_fitness_prefix sq_dist_sum_def sq_dist_def)
  ultimately show ?thesis
    by simp
qed

lemma random_parent_first:
  "random_parent [x, y] (0 ## g) = Inr (x, g)"
  by (simp add: random_parent_def randint_def getitem_def list_index_def)

lemma run_pass1:
  "loop_body ''c''
     \<lparr>gene_pool = [\<lparr>dna = ''a'', fitness = 4\<rparr>, \<lparr>dna = ''b'', fitness = 1\<rparr>],
      generation = 1, fittest = []\<rparr>
     (0 ## 0 ## 0 ## 0 ## 0 ## 2 ## g)
   = Inr (False,
          \<lparr>gene_pool = [\<lparr>dna = ''b'', fitness = 1\<rparr>, \<lparr>dna = ''c'', fitness = 0\<rparr>],
           generation = 2, fittest = [\<lparr>dna = ''b'', fitness = 1\<rparr>]\<rparr>, g)"
proof -
  let ?a = "\<lparr>dna = ''a'', fitness = 4\<rparr>" and ?b = "\<lparr>dna = ''b'', fitness = 1\<rparr>"
  let ?c = "\<lparr>dna = ''c'', fitness = 0\<rparr>"
  have srt: "sort_key fitness [?a, ?b] = [?b, ?a]"
    by simp
  have rep: "reproduce [?b, ?a] ''c'' (0 ## 0 ## 0 ## 0 ## 0 ## 2 ## g) = Inr (?c, g)"
    by (simp add: reproduce_def random_parent_first mutate_b_up)
  have rw: "replace_worst [?b, ?a] ?c = Inr [?b, ?c]"
    by (simp add: replace_worst_def getitem_last setitem_last)
  show ?thesis
    by (simp add: loop_body_def srt rep rw getitem_first)
qed

lemma run_pass2:
  "loop_body ''c''
     \<lparr>gene_pool = [\<lparr>dna = ''b'', fitness = 1\<rparr>, \<lparr>dna = ''c'', fitness = 0\<rparr>],
      generation = 2, fittest = [\<lparr>dna = ''b'', fitness = 1\<rparr>]\<rparr>
     (0 ## 0 ## 0 ## 0 ## 0 ## 4 ## g)
   = Inr (True,
          \<lparr>gene_pool = [\<lparr>dna = ''c'', fitness = 0\<rparr>, \<lparr>dna = ''c'', fitness = 0\<rparr>],
           generation = 2,
           fittest = [\<lparr>dna = ''b'', fitness = 1\<rparr>, \<lparr>dna = ''c'', fitness = 0\<rparr>]\<rparr>, g)"
proof -
  let ?b = "\<lparr>dna = ''b'', fitness = 1\<rparr>" and ?c = "\<lparr>dna = ''c'', fitness = 0\<rparr>"
  have srt: "sort_key fitness [?b, ?c] = [?c, ?b]"
    by simp
  have rep: "reproduce [?c, ?b] ''c'' (0 ## 0 ## 0 ## 0 ## 0 ## 4 ## g) = Inr (?c, g)"
    by (simp add: reproduce_def random_parent_first mutate_c_same)
  have rw: "replace_worst [?c, ?b] ?c = Inr [?c, ?c]"
    by (simp add: replace_worst_def getitem_last setitem_last)
  show ?thesis
    by (simp add: loop_body_def srt rep rw getitem_first)
qed

lemma butlast_snoc_update:
  "pool \<noteq> [] \<Longrightarrow> butlast pool @ [c] = pool[length pool - 1 := c]"
  by (cases pool rule: rev_cases) simp_all

lemma run_generations:
  "generations (Suc (Suc 0)) ''c''
     \<lparr>gene_pool = [\<lparr>dna = ''a'', fitness = 4\<rparr>, \<lparr>dna = ''b'', fitness = 1\<rparr>],
      generation = 1, fittest = []\<rparr>
     (0 ## 0 ## 0 ## 0 ## 0 ## 2 ## 0 ## 0 ## 0 ## 0 ## 0 ## 4 ## g)
   = Inr (True,
          \<lparr>gene_pool = [\<lparr>dna = ''c'', fitness = 0\<rparr>, \<lparr>dna = ''c'', fitness = 0\<rparr>],
           generation = 2,
           fittest = [\<lparr>dna = ''b'', fitness = 1\<rparr>, \<lparr>dna = ''c'', fitness = 0\<rparr>]\<rparr>, g)"
  by (simp add: run_pass1 run_pass2)


section \<open>Replacement and the size of the pool\<close>

text \<open>
  Claim C1. In every pass, with \<open>pool\<close> the gene pool sorted by fitness in ascending
  order and \<open>worst\<close> its last element (no element of the pool has a greater fitness):
  the child that \<open>reproduce\<close> returns is put into the pool exactly when its fitness is
  strictly less than the fitness of \<open>worst\<close>, and then it overwrites the last position and
  nothing else; when its fitness is greater than or equal to the fitness of \<open>worst\<close>, the
  pool after the pass is the sorted pool, with the same candidates as before the pass.
\<close>

theorem elitist_replacement:
  assumes "loop_body target s g = Inr (stop, s', g')"
  shows "let pool = sort_key fitness (gene_pool s); worst = last pool in
         \<exists>child. reproduce pool target g = Inr (child, g')
           \<and> pool \<noteq> []
           \<and> sorted (map fitness pool)
           \<and> list_all (\<lambda>c. fitness c \<le> fitness worst) pool
           \<and> (fitness child < fitness worst \<longrightarrow>
                 gene_pool s' = pool[length pool - 1 := child])
           \<and> (fitness worst \<le> fitness child \<longrightarrow>
                 gene_pool s' = pool \<and> mset (gene_pool s') = mset (gene_pool s))"
proof -
  let ?pool = "sort_key fitness (gene_pool s)"
  from loop_body_Inr [OF assms] obtain child where
    ne: "?pool \<noteq> []" and r: "reproduce ?pool target g = Inr (child, g')" and
    p': "gene_pool s' = (if fitness child < fitness (last ?pool)
                         then butlast ?pool @ [child] else ?pool)"
    by blast
  have worst: "list_all (\<lambda>c. fitness c \<le> fitness (last ?pool)) ?pool"
    unfolding list_all_iff
  proof
    fix c assume "c \<in> set ?pool"
    then have "c \<in> set (gene_pool s)" by simp
    then show "fitness c \<le> fitness (last ?pool)" by (rule last_sort_key_greatest)
  qed
  have srt: "sorted (map fitness ?pool)" by simp
  have ins: "fitness child < fitness (last ?pool) \<longrightarrow>
               gene_pool s' = ?pool[length ?pool - 1 := child]"
    using p' butlast_snoc_update [OF ne, of child] by simp
  have keep: "fitness (last ?pool) \<le> fitness child \<longrightarrow>
                gene_pool s' = ?pool \<and> mset (gene_pool s') = mset (gene_pool s)"
    using p' by simp
  from r ne srt worst ins keep show ?thesis
    unfolding Let_def by blast
qed

theorem elitist_replacement_witness:
  "loop_body ''c''
     \<lparr>gene_pool = [\<lparr>dna = ''a'', fitness = 4\<rparr>, \<lparr>dna = ''b'', fitness = 1\<rparr>],
      generation = 1, fittest = []\<rparr>
     (0 ## 0 ## 0 ## 0 ## 0 ## 2 ## sconst 0)
   = Inr (False,
          \<lparr>gene_pool = [\<lparr>dna = ''b'', fitness = 1\<rparr>, \<lparr>dna = ''c'', fitness = 0\<rparr>],
           generation = 2, fittest = [\<lparr>dna = ''b'', fitness = 1\<rparr>]\<rparr>, sconst 0)
   \<and> (\<exists>child. reproduce [\<lparr>dna = ''b'', fitness = 1\<rparr>, \<lparr>dna = ''a'', fitness = 4\<rparr>] ''c''
                  (0 ## 0 ## 0 ## 0 ## 0 ## 2 ## sconst 0) = Inr (child, sconst 0)
          \<and> fitness child < 4
          \<and> [\<lparr>dna = ''b'', fitness = 1\<rparr>, \<lparr>dna = ''c'', fitness = 0\<rparr>]
              = [\<lparr>dna = ''b'', fitness = 1\<rparr>, \<lparr>dna = ''a'', fitness = 4\<rparr>][1 := child])"
proof -
  note pass = run_pass1 [of "sconst 0"]
  from elitist_replacement [OF pass] obtain child where
    r: "reproduce [\<lparr>dna = ''b'', fitness = 1\<rparr>, \<lparr>dna = ''a'', fitness = 4\<rparr>] ''c''
          (0 ## 0 ## 0 ## 0 ## 0 ## 2 ## sconst 0) = Inr (child, sconst 0)"
    and ins: "fitness child < 4 \<longrightarrow>
          [\<lparr>dna = ''b'', fitness = 1\<rparr>, \<lparr>dna = ''c'', fitness = 0\<rparr>]
            = [\<lparr>dna = ''b'', fitness = 1\<rparr>, \<lparr>dna = ''a'', fitness = 4\<rparr>][1 := child]"
    by (auto simp: Let_def)
  have "reproduce [\<lparr>dna = ''b'', fitness = 1\<rparr>, \<lparr>dna = ''a'', fitness = 4\<rparr>] ''c''
          (0 ## 0 ## 0 ## 0 ## 0 ## 2 ## sconst 0) = Inr (\<lparr>dna = ''c'', fitness = 0\<rparr>, sconst 0)"
    by (simp add: reproduce_def random_parent_first mutate_b_up)
  with r have "child = \<lparr>dna = ''c'', fitness = 0\<rparr>" by simp
  then have "fitness child < 4" by simp
  with pass r ins show ?thesis by blast
qed


text \<open>
  Claim C6. After \<open>initial_state n target\<close> and any number \<open>k\<close> of passes (\<open>k = 0\<close> is the
  state right after initialisation), the pool holds exactly \<open>n\<close> candidates and every
  genome in it has the length of the target.
\<close>

theorem population_invariant:
  assumes "initial_state n target g = Inr (s0, g0)"
    and "generations k target s0 g0 = Inr (stop, s, g')"
  shows "length (gene_pool s) = n
         \<and> list_all (\<lambda>c. length (dna c) = length target) (gene_pool s)"
proof -
  from initial_state_Inr [of n target g] assms(1)
  have "length (gene_pool s0) = n" and "list_all (well_formed target) (gene_pool s0)"
    by auto
  with generations_pool [OF assms(2)]
  have "length (gene_pool s) = n" and "list_all (well_formed target) (gene_pool s)"
    by simp_all
  then show ?thesis
    by (simp add: list_all_iff well_formed_def)
qed

theorem population_invariant_witness:
  "initial_state 2 ''c''
     (0 ## 1 ## 0 ## 0 ## 0 ## 0 ## 0 ## 2 ## 0 ## 0 ## 0 ## 0 ## 0 ## 4 ## sconst 0)
   = Inr (\<lparr>gene_pool = [\<lparr>dna = ''a'', fitness = 4\<rparr>, \<lparr>dna = ''b'', fitness = 1\<rparr>],
           generation = 1, fittest = []\<rparr>,
          0 ## 0 ## 0 ## 0 ## 0 ## 2 ## 0 ## 0 ## 0 ## 0 ## 0 ## 4 ## sconst 0)
   \<and> generations (Suc (Suc 0)) ''c''
       \<lparr>gene_pool = [\<lparr>dna = ''a'', fitness = 4\<rparr>, \<lparr>dna = ''b'', fitness = 1\<rparr>],
        generation = 1, fittest = []\<rparr>
       (0 ## 0 ## 0 ## 0 ## 0 ## 2 ## 0 ## 0 ## 0 ## 0 ## 0 ## 4 ## sconst 0)
     = Inr (True,
          \<lparr>gene_pool = [\<lparr>dna = ''c'', fitness = 0\<rparr>, \<lparr>dna = ''c'', fitness = 0\<rparr>],
           generation = 2,
           fittest = [\<lparr>dna = ''b'', fitness = 1\<rparr>, \<lparr>dna = ''c'', fitness = 0\<rparr>]\<rparr>, sconst 0)
   \<and> length [\<lparr>dna = ''c'', fitness = 0\<rparr>, \<lparr>dna = ''c'', fitness = 0\<rparr>] = 2
   \<and> list_all (\<lambda>c. length (dna c) = length ''c'')
        [\<lparr>dna = ''c'', fitness = 0\<rparr>, \<lparr>dna = ''c'', fitness = 0\<rparr>]"
proof -
  note init = run_init [of "0 ## 0 ## 0 ## 0 ## 0 ## 2 ## 0 ## 0 ## 0 ## 0 ## 0 ## 4 ## sconst 0"]
  note run = run_generations [of "sconst 0"]
  from population_invariant [OF init run] init run show ?thesis
    by simp
qed

section \<open>The history is monotone\<close>

lemma initial_state_history:
  assumes "initial_state n target g = Inr (s0, g0)"
  shows "fittest s0 = [] \<and> generation s0 = 1"
  using assms initial_state_Inr [of n target g] by auto

text \<open>
  Claim C7. In every run, the fitness of the candidate appended to \<open>fittest\<close> in one pass
  is less than or equal to the fitness of the candidate appended in the pass before: after
  any number of passes from the initial state, each entry of \<open>fittest\<close> has a fitness no
  greater than the entry before it.
\<close>

theorem history_monotone:
  assumes "initial_state n target g = Inr (s0, g0)"
    and "generations k target s0 g0 = Inr (stop, s, g')"
  shows "\<forall>i. Suc i < length (fittest s) \<longrightarrow>
             fitness (fittest s ! Suc i) \<le> fitness (fittest s ! i)"
proof -
  from initial_state_history [OF assms(1)] have empty: "fittest s0 = []" by simp
  then have "sorted_wrt (\<lambda>x y. fitness y \<le> fitness x) (fittest s0)" by simp
  from generations_history [OF assms(2) this] empty
  have "sorted_wrt (\<lambda>x y. fitness y \<le> fitness x) (fittest s)" by simp
  then show ?thesis
    by (auto dest: sorted_wrt_nth_less [where i = i and j = "Suc i" for i])
qed

theorem history_monotone_witness:
  "initial_state 2 ''c''
     (0 ## 1 ## 0 ## 0 ## 0 ## 0 ## 0 ## 2 ## 0 ## 0 ## 0 ## 0 ## 0 ## 4 ## sconst 0)
   = Inr (\<lparr>gene_pool = [\<lparr>dna = ''a'', fitness = 4\<rparr>, \<lparr>dna = ''b'', fitness = 1\<rparr>],
           generation = 1, fittest = []\<rparr>,
          0 ## 0 ## 0 ## 0 ## 0 ## 2 ## 0 ## 0 ## 0 ## 0 ## 0 ## 4 ## sconst 0)
   \<and> generations (Suc (Suc 0)) ''c''
       \<lparr>gene_pool = [\<lparr>dna = ''a'', fitness = 4\<rparr>, \<lparr>dna = ''b'', fitness = 1\<rparr>],
        generation = 1, fittest = []\<rparr>
       (0 ## 0 ## 0 ## 0 ## 0 ## 2 ## 0 ## 0 ## 0 ## 0 ## 0 ## 4 ## sconst 0)
     = Inr (True,
          \<lparr>gene_pool = [\<lparr>dna = ''c'', fitness = 0\<rparr>, \<lparr>dna = ''c'', fitness = 0\<rparr>],
           generation = 2,
           fittest = [\<lparr>dna = ''b'', fitness = 1\<rparr>, \<lparr>dna = ''c'', fitness = 0\<rparr>]\<rparr>, sconst 0)
   \<and> fitness ([\<lparr>dna = ''b'', fitness = 1\<rparr>, \<lparr>dna = ''c'', fitness = 0\<rparr>] ! Suc 0)
       \<le> fitness ([\<lparr>dna = ''b'', fitness = 1\<rparr>, \<lparr>dna = ''c'', fitness = 0\<rparr>] ! 0)"
proof -
  note init = run_init [of "0 ## 0 ## 0 ## 0 ## 0 ## 2 ## 0 ## 0 ## 0 ## 0 ## 0 ## 4 ## sconst 0"]
  note run = run_generations [of "sconst 0"]
  from history_monotone [OF init run] have
    "Suc 0 < length [\<lparr>dna = ''b'', fitness = 1\<rparr>, \<lparr>dna = ''c'', fitness = 0\<rparr>] \<longrightarrow>
     fitness ([\<lparr>dna = ''b'', fitness = 1\<rparr>, \<lparr>dna = ''c'', fitness = 0\<rparr>] ! Suc 0)
       \<le> fitness ([\<lparr>dna = ''b'', fitness = 1\<rparr>, \<lparr>dna = ''c'', fitness = 0\<rparr>] ! 0)"
    by simp
  then have "fitness ([\<lparr>dna = ''b'', fitness = 1\<rparr>, \<lparr>dna = ''c'', fitness = 0\<rparr>] ! Suc 0)
       \<le> fitness ([\<lparr>dna = ''b'', fitness = 1\<rparr>, \<lparr>dna = ''c'', fitness = 0\<rparr>] ! 0)"
    by simp
  with init run show ?thesis by blast
qed

section \<open>Leaving the loop\<close>

lemma loop_body_generation:
  assumes "loop_body target s g = Inr (stop, s', g')"
  shows "\<exists>s''. loop_body target (s\<lparr>generation := n\<rparr>) g = Inr (stop, s'', g')
           \<and> gene_pool s'' = gene_pool s' \<and> fittest s'' = fittest s'"
  using assms unfolding loop_body_def Let_def
  by (auto split: sum.splits if_splits)

lemma generations_stop:
  assumes "generations k target s g = Inr (True, s', g')"
  shows "gene_pool s' \<noteq> [] \<and> fitness (hd (gene_pool s')) = 0"
proof -
  from generations_last_pass [OF assms] obtain s1 g1 where
    lb: "loop_body target s1 g1 = Inr (True, s', g')" by blast
  from loop_body_Inr [OF lb] obtain child where
    "sort_key fitness (gene_pool s1) \<noteq> []"
    "gene_pool s' = (if fitness child < fitness (last (sort_key fitness (gene_pool s1)))
                     then butlast (sort_key fitness (gene_pool s1)) @ [child]
                     else sort_key fitness (gene_pool s1))"
    "True = (fitness (hd (gene_pool s')) = 0)"
    by blast
  then show ?thesis by (auto split: if_splits)
qed

text \<open>
  The loop has no bound of its own: with a single candidate \<open>b\<close>, target \<open>c\<close> and every
  draw equal to \<open>4\<close>, each pass mates \<open>b\<close> with itself, leaves it unchanged and discards
  the child, so the loop never returns.
\<close>

lemma sconst_unfold: "sconst x = x ## sconst x"
  by (subst siterate.ctr) simp

lemma mutate_b_same:
  "mutate \<lparr>dna = ''b'', fitness = 1\<rparr> \<lparr>dna = ''b'', fitness = 1\<rparr> ''c'' (4 ## 4 ## 4 ## 4 ## g)
     = Inr (\<lparr>dna = ''b'', fitness = 1\<rparr>, g)"
proof -
  let ?b = "\<lparr>dna = ''b'', fitness = 1\<rparr>"
  have "mutate ?b ?b ''c'' (4 ## 4 ## 4 ## 4 ## g) =
    (case py_chr (py_ord (''b'' ! 0) + 0) of
       Inl e \<Rightarrow> Inl e
     | Inr new \<Rightarrow>
         (case calc_fitness (''b''[0 := new]) ''c'' of
            Inl e \<Rightarrow> Inl e
          | Inr f \<Rightarrow> Inr (\<lparr>dna = ''b''[0 := new], fitness = f\<rparr>, g)))"
    by (rule mutate_unfold [where n = 1 and a = 0 and b = 0]) (simp_all add: crossover_def)
  moreover have "py_chr (py_ord (''b'' ! 0) + 0) = Inr (CHR ''b'')"
    by (simp add: py_chr_def py_ord_def char_of_def)
  moreover have "calc_fitness ''b'' ''c'' = Inr 1"
    by (simp add: calc_fitness_prefix sq_dist_sum_def sq_dist_def py_ord_def)
  ultimately show ?thesis
    by simp
qed

lemma stuck_pass:
  assumes "gene_pool s = [\<lparr>dna = ''b'', fitness = 1\<rparr>]"
  shows "loop_body ''c'' s (sconst 4)
           = Inr (False, \<lparr>gene_pool = [\<lparr>dna = ''b'', fitness = 1\<rparr>],
                          generation = generation s + 1,
                          fittest = fittest s @ [\<lparr>dna = ''b'', fitness = 1\<rparr>]\<rparr>, sconst 4)"
proof -
  let ?b = "\<lparr>dna = ''b'', fitness = 1\<rparr>"
  have g: "sconst 4 = 4 ## 4 ## 4 ## 4 ## 4 ## 4 ## sconst (4::nat)"
    using sconst_unfold [of "4::nat"] by simp
  have rp: "random_parent [?b] (4 ## g') = Inr (?b, g')" for g'
    by (simp add: random_parent_def randint_def getitem_def list_index_def)
  have rep: "reproduce [?b] ''c'' (4 ## 4 ## 4 ## 4 ## 4 ## 4 ## sconst 4) = Inr (?b, sconst 4)"
    by (simp add: reproduce_def rp mutate_b_same)
  have rw: "replace_worst [?b] ?b = Inr [?b]"
    by (simp add: replace_worst_def getitem_last)
  show ?thesis
    by (subst g) (simp add: loop_body_def Let_def assms rep rw getitem_first)
qed

lemma evolve_runs_forever:
  assumes "gene_pool s = [\<lparr>dna = ''b'', fitness = 1\<rparr>]"
  shows "evolve ''c'' s (sconst 4) = None"
proof (rule ccontr)
  assume "evolve ''c'' s (sconst 4) \<noteq> None"
  then obtain r where r: "evolve ''c'' s (sconst 4) = Some r" by auto
  have "target = ''c'' \<longrightarrow> gene_pool s = [\<lparr>dna = ''b'', fitness = 1\<rparr>] \<longrightarrow> g = sconst 4
          \<longrightarrow> False"
    if "evolve target s g = Some r" for target s g r
    using that
  proof (rule evolve.raw_induct [where P = "\<lambda>target s g r.
      target = ''c'' \<longrightarrow> gene_pool s = [\<lparr>dna = ''b'', fitness = 1\<rparr>] \<longrightarrow> g = sconst 4
          \<longrightarrow> False", rotated 1], goal_cases)
    case (1 evolve' target s g r)
    show ?case
    proof (intro impI)
      assume t: "target = ''c''" and p: "gene_pool s = [\<lparr>dna = ''b'', fitness = 1\<rparr>]"
        and g: "g = sconst 4"
      let ?s' = "\<lparr>gene_pool = [\<lparr>dna = ''b'', fitness = 1\<rparr>],
                          generation = generation s + 1,
                          fittest = fittest s @ [\<lparr>dna = ''b'', fitness = 1\<rparr>]\<rparr>"
      from 1(2) have "evolve' ''c'' ?s' (sconst 4) = Some r"
        by (simp add: t g stuck_pass [OF p])
      from 1(1) [OF this] show False by simp
    qed
  qed
  from this [OF r] assms show False by simp
qed

text \<open>
  The cell as written: if it returns, the pool still has \<open>POPULATION\<close> well-formed
  candidates, and \<open>generation\<close> is left at the last index of \<open>fittest\<close>.
\<close>

lemma display_fittest_fields:
  "gene_pool (display_fittest i xs s) = gene_pool s
   \<and> fittest (display_fittest i xs s) = fittest s
   \<and> generation (display_fittest i xs s)
       = (if xs = [] then generation s else int (i + length xs) - 1)"
  by (induction xs arbitrary: i s) auto

lemma hello_world_pool:
  assumes "hello_world g = Some (Inr (s, g'))"
  shows "length (gene_pool s) = POPULATION
         \<and> list_all (well_formed ''Hello, world!'') (gene_pool s)
         \<and> (fittest s \<noteq> [] \<longrightarrow> generation s = int (length (fittest s)) - 1)"
proof -
  from initial_state_Inr [of POPULATION "''Hello, world!''" g] obtain s0 g0 where
    init: "initial_state POPULATION ''Hello, world!'' g = Inr (s0, g0)"
    and len: "length (gene_pool s0) = POPULATION"
    and wf: "list_all (well_formed ''Hello, world!'') (gene_pool s0)"
    by auto
  with assms obtain s' where ev: "evolve ''Hello, world!'' s0 g0 = Some (Inr (s', g'))"
    and s: "s = display_fittest 0 (fittest s') s'"
    by (auto simp: hello_world_def split: option.splits sum.splits)
  from evolve_Some [OF ev] obtain k where
    "generations k ''Hello, world!'' s0 g0 = Inr (True, s', g')" by auto
  from generations_pool [OF this wf] len display_fittest_fields [of 0 "fittest s'" s'] s
  show ?thesis by simp
qed

lemma loop_body_front:
  assumes "loop_body target s g = Inr (stop, s', g')" and "2 \<le> length (gene_pool s)"
  shows "gene_pool s' \<noteq> []
         \<and> gene_pool s' ! 0 = sort_key fitness (gene_pool s) ! 0
         \<and> last (fittest s') = gene_pool s' ! 0
         \<and> (stop \<longleftrightarrow> fitness (last (fittest s')) = 0)"
proof -
  let ?pool = "sort_key fitness (gene_pool s)"
  from loop_body_Inr [OF assms(1)] obtain child where
    ne: "?pool \<noteq> []" and
    p': "gene_pool s' = (if fitness child < fitness (last ?pool)
                         then butlast ?pool @ [child] else ?pool)" and
    h': "fittest s' = fittest s @ [hd ?pool]" and
    st: "stop = (fitness (hd (gene_pool s')) = 0)"
    by blast
  from assms(2) have "2 \<le> length ?pool" by simp
  then obtain x y zs where pool: "?pool = x # y # zs"
    by (cases ?pool; cases "tl ?pool") auto
  then have front: "(butlast ?pool @ [child]) ! 0 = x" "?pool ! 0 = x" "hd ?pool = x"
    by simp_all
  from p' front have g0: "gene_pool s' ! 0 = ?pool ! 0"
    by (simp split: if_splits)
  from p' ne have ne': "gene_pool s' \<noteq> []" by (auto split: if_splits)
  from ne' g0 front have "hd (gene_pool s') = hd ?pool"
    by (simp add: hd_conv_nth)
  with st h' g0 front ne' show ?thesis
    by simp
qed

lemma evolve_raises:
  "loop_body target s g = Inl e \<Longrightarrow> evolve target s g = Some (Inl e)"
  by (subst evolve.simps) simp

lemma loop_body_single:
  assumes "loop_body target s g = Inr (stop, s', g')" and "length (gene_pool s) = 1"
  shows "\<exists>child. reproduce (sort_key fitness (gene_pool s)) target g = Inr (child, g')
           \<and> gene_pool s' ! 0 =
               (if fitness child < fitness (sort_key fitness (gene_pool s) ! 0) then child
                else sort_key fitness (gene_pool s) ! 0)"
proof -
  let ?pool = "sort_key fitness (gene_pool s)"
  from loop_body_Inr [OF assms(1)] obtain child where
    r: "reproduce ?pool target g = Inr (child, g')" and
    p': "gene_pool s' = (if fitness child < fitness (last ?pool)
                         then butlast ?pool @ [child] else ?pool)"
    by blast
  from assms(2) have "length ?pool = 1" by simp
  then obtain x where x: "?pool = [x]"
    by (cases ?pool) auto
  with p' have "gene_pool s' ! 0 = (if fitness child < fitness (?pool ! 0) then child else ?pool ! 0)"
    by simp
  with r show ?thesis by blast
qed

lemma sorted_head_least:
  "list_all (\<lambda>c. fitness (sort_key fitness pool ! 0) \<le> fitness c) pool"
  unfolding list_all_iff
proof
  fix c assume c: "c \<in> set pool"
  then have "sort_key fitness pool \<noteq> []" by (metis empty_iff list.set(1) set_sort)
  with hd_sort_key_least [OF c] show "fitness (sort_key fitness pool ! 0) \<le> fitness c"
    by (simp add: hd_conv_nth)
qed

lemma random_parent_only:
  "random_parent [x] (0 ## g) = Inr (x, g)"
  by (simp add: random_parent_def randint_def getitem_def list_index_def)

lemma single_init:
  "initial_state (Suc 0) ''c'' (56 ## g)
     = Inr (\<lparr>gene_pool = [\<lparr>dna = ''b'', fitness = 1\<rparr>], generation = 1, fittest = []\<rparr>, g)"
proof -
  have b: "random_dna (length ''c'') (56 ## g) = Inr (''b'', g)"
    by (simp add: choice_def GENES_def)
  have fb: "calc_fitness ''b'' ''c'' = Inr 1"
    by (simp add: calc_fitness_prefix sq_dist_sum_def sq_dist_def py_ord_def)
  have "create_pool (Suc 0) ''c'' [] (56 ## g) = Inr ([\<lparr>dna = ''b'', fitness = 1\<rparr>], g)"
    by (simp only: create_pool.simps b fb sum.case prod.case append.simps)
  then show ?thesis
    by (simp add: initial_state_def)
qed

lemma single_pass:
  "loop_body ''c''
     \<lparr>gene_pool = [\<lparr>dna = ''b'', fitness = 1\<rparr>], generation = 1, fittest = []\<rparr>
     (0 ## 0 ## 0 ## 0 ## 0 ## 2 ## g)
   = Inr (True,
          \<lparr>gene_pool = [\<lparr>dna = ''c'', fitness = 0\<rparr>], generation = 1,
           fittest = [\<lparr>dna = ''b'', fitness = 1\<rparr>]\<rparr>, g)"
proof -
  let ?b = "\<lparr>dna = ''b'', fitness = 1\<rparr>" and ?c = "\<lparr>dna = ''c'', fitness = 0\<rparr>"
  have srt: "sort_key fitness [?b] = [?b]"
    by simp
  have rep: "reproduce [?b] ''c'' (0 ## 0 ## 0 ## 0 ## 0 ## 2 ## g) = Inr (?c, g)"
    by (simp add: reproduce_def random_parent_only mutate_b_up)
  have rw: "replace_worst [?b] ?c = Inr [?c]"
    by (simp add: replace_worst_def getitem_last setitem_last)
  show ?thesis
    by (simp add: loop_body_def srt rep rw getitem_first)
qed

lemma mutate_nul_down:
  "mutate \<lparr>dna = [CHR 0x00], fitness = 1\<rparr> \<lparr>dna = [CHR 0x00], fitness = 1\<rparr> [CHR 0x01]
     (0 ## 0 ## 0 ## 0 ## g) = Inl ValueError"
proof -
  have "mutate \<lparr>dna = [CHR 0x00], fitness = 1\<rparr> \<lparr>dna = [CHR 0x00], fitness = 1\<rparr> [CHR 0x01]
     (0 ## 0 ## 0 ## 0 ## g) =
    (case py_chr (py_ord ([CHR 0x00] ! 0) + (- 1)) of
       Inl e \<Rightarrow> Inl e
     | Inr new \<Rightarrow>
         (case calc_fitness ([CHR 0x00][0 := new]) [CHR 0x01] of
            Inl e \<Rightarrow> Inl e
          | Inr f \<Rightarrow> Inr (\<lparr>dna = [CHR 0x00][0 := new], fitness = f\<rparr>, g)))"
    by (rule mutate_unfold [where n = 1 and a = 0 and b = 0]) (simp_all add: crossover_def)
  then show ?thesis
    by (simp add: py_chr_def py_ord_def)
qed

lemma raising_pass:
  "loop_body [CHR 0x01]
     \<lparr>gene_pool = [\<lparr>dna = [CHR 0x00], fitness = 1\<rparr>, \<lparr>dna = [CHR 0x02], fitness = 1\<rparr>],
      generation = 1, fittest = []\<rparr>
     (0 ## 0 ## 0 ## 0 ## 0 ## 0 ## g)
   = Inl ValueError"
proof -
  let ?n = "\<lparr>dna = [CHR 0x00], fitness = 1\<rparr>" and ?t = "\<lparr>dna = [CHR 0x02], fitness = 1\<rparr>"
  have srt: "sort_key fitness [?n, ?t] = [?n, ?t]"
    by simp
  have rep: "reproduce [?n, ?t] [CHR 0x01] (0 ## 0 ## 0 ## 0 ## 0 ## 0 ## g) = Inl ValueError"
    by (simp add: reproduce_def random_parent_first mutate_nul_down)
  show ?thesis
    by (simp add: loop_body_def srt rep getitem_first)
qed

text \<open>
  Claim C8, as stated: the loop ends exactly when the fitness of the best member, the
  first element of the pool after sorting, is \<open>0\<close>, and a pass in which it is not goes on
  to another pass. With a single candidate the replacement overwrites the first element,
  so the check reads the child: from the initial state with one candidate \<open>b\<close> the loop
  leaves after a pass whose sorted pool has a best fitness of \<open>1\<close>. And a pass in which
  \<open>chr\<close> raises ends the run with \<open>ValueError\<close> while the best fitness is \<open>1\<close>.
\<close>

theorem evolve_stops_counterexample:
  "initial_state (Suc 0) ''c'' (56 ## 0 ## 0 ## 0 ## 0 ## 0 ## 2 ## sconst 0)
     = Inr (\<lparr>gene_pool = [\<lparr>dna = ''b'', fitness = 1\<rparr>], generation = 1, fittest = []\<rparr>,
            0 ## 0 ## 0 ## 0 ## 0 ## 2 ## sconst 0)
   \<and> fitness (sort_key fitness [\<lparr>dna = ''b'', fitness = 1\<rparr>] ! 0) = 1
   \<and> evolve ''c''
         \<lparr>gene_pool = [\<lparr>dna = ''b'', fitness = 1\<rparr>], generation = 1, fittest = []\<rparr>
         (0 ## 0 ## 0 ## 0 ## 0 ## 2 ## sconst 0)
       = Some (Inr (\<lparr>gene_pool = [\<lparr>dna = ''c'', fitness = 0\<rparr>], generation = 1,
                     fittest = [\<lparr>dna = ''b'', fitness = 1\<rparr>]\<rparr>, sconst 0))
   \<and> fitness (sort_key fitness
         [\<lparr>dna = [CHR 0x00], fitness = 1\<rparr>, \<lparr>dna = [CHR 0x02], fitness = 1\<rparr>] ! 0) = 1
   \<and> evolve [CHR 0x01]
         \<lparr>gene_pool = [\<lparr>dna = [CHR 0x00], fitness = 1\<rparr>, \<lparr>dna = [CHR 0x02], fitness = 1\<rparr>],
          generation = 1, fittest = []\<rparr>
         (0 ## 0 ## 0 ## 0 ## 0 ## 0 ## sconst 0)
       = Some (Inl ValueError)"
proof -
  have init: "initial_state (Suc 0) ''c'' (56 ## 0 ## 0 ## 0 ## 0 ## 0 ## 2 ## sconst 0)
     = Inr (\<lparr>gene_pool = [\<lparr>dna = ''b'', fitness = 1\<rparr>], generation = 1, fittest = []\<rparr>,
            0 ## 0 ## 0 ## 0 ## 0 ## 2 ## sconst 0)"
    by (rule single_init)
  have head1: "fitness (sort_key fitness [\<lparr>dna = ''b'', fitness = 1\<rparr>] ! 0) = 1"
    by simp
  have stop1: "evolve ''c''
         \<lparr>gene_pool = [\<lparr>dna = ''b'', fitness = 1\<rparr>], generation = 1, fittest = []\<rparr>
         (0 ## 0 ## 0 ## 0 ## 0 ## 2 ## sconst 0)
       = Some (Inr (\<lparr>gene_pool = [\<lparr>dna = ''c'', fitness = 0\<rparr>], generation = 1,
                     fittest = [\<lparr>dna = ''b'', fitness = 1\<rparr>]\<rparr>, sconst 0))"
    by (subst evolve.simps) (simp add: single_pass)
  have head2: "fitness (sort_key fitness
         [\<lparr>dna = [CHR 0x00], fitness = 1\<rparr>, \<lparr>dna = [CHR 0x02], fitness = 1\<rparr>] ! 0) = 1"
    by simp
  have raise2: "evolve [CHR 0x01]
         \<lparr>gene_pool = [\<lparr>dna = [CHR 0x00], fitness = 1\<rparr>, \<lparr>dna = [CHR 0x02], fitness = 1\<rparr>],
          generation = 1, fittest = []\<rparr>
         (0 ## 0 ## 0 ## 0 ## 0 ## 0 ## sconst 0)
       = Some (Inl ValueError)"
    by (rule evolve_raises) (rule raising_pass)
  from init head1 stop1 head2 raise2 show ?thesis by blast
qed

text \<open>
  Claim C8, amended. A pass either raises, and the exception ends the run, or completes.
  A pass that completes ends the loop exactly when the first element of the pool has
  fitness \<open>0\<close> at the check, after the replacement; otherwise the generation counter is
  incremented and the loop goes on from the state the pass left. With two or more
  candidates that first element is the first element of the pool sorted in this pass, a
  member of least fitness, so the loop ends exactly when the best fitness is \<open>0\<close>; with
  one candidate it is the child when the child was inserted, and the single member
  otherwise. The generation counter has no influence on a pass (there is no cap on it),
  and whenever \<open>evolve\<close> returns a state, the first element of its pool has fitness \<open>0\<close>.
\<close>

theorem evolve_exits:
  "(case loop_body target s g of
     Inl e \<Rightarrow> evolve target s g = Some (Inl e)
   | Inr (stop, s', g') \<Rightarrow>
       gene_pool s \<noteq> [] \<and> gene_pool s' \<noteq> []
       \<and> list_all (\<lambda>c. fitness (sort_key fitness (gene_pool s) ! 0) \<le> fitness c) (gene_pool s)
       \<and> (stop \<longleftrightarrow> fitness (gene_pool s' ! 0) = 0)
       \<and> (2 \<le> length (gene_pool s) \<longrightarrow>
             gene_pool s' ! 0 = sort_key fitness (gene_pool s) ! 0
             \<and> (stop \<longleftrightarrow> fitness (sort_key fitness (gene_pool s) ! 0) = 0))
       \<and> (length (gene_pool s) = 1 \<longrightarrow>
             (\<exists>child. reproduce (sort_key fitness (gene_pool s)) target g = Inr (child, g')
                \<and> gene_pool s' ! 0 =
                    (if fitness child < fitness (sort_key fitness (gene_pool s) ! 0) then child
                     else sort_key fitness (gene_pool s) ! 0)))
       \<and> (stop \<longrightarrow> evolve target s g = Some (Inr (s', g')))
       \<and> (\<not> stop \<longrightarrow> evolve target s g = evolve target s' g'
                      \<and> generation s' = generation s + 1)
       \<and> (\<forall>n. \<exists>s''. loop_body target (s\<lparr>generation := n\<rparr>) g = Inr (stop, s'', g')
                      \<and> gene_pool s'' = gene_pool s' \<and> fittest s'' = fittest s'))
   \<and> (\<forall>sf gf. evolve target s g = Some (Inr (sf, gf)) \<longrightarrow>
          gene_pool sf \<noteq> [] \<and> fitness (gene_pool sf ! 0) = 0)"
proof -
  have only: "\<forall>sf gf. evolve target s g = Some (Inr (sf, gf)) \<longrightarrow>
                gene_pool sf \<noteq> [] \<and> fitness (gene_pool sf ! 0) = 0"
  proof (intro allI impI)
    fix sf gf assume "evolve target s g = Some (Inr (sf, gf))"
    from evolve_Some [OF this] obtain k where
      "generations k target s g = Inr (True, sf, gf)" by auto
    from generations_stop [OF this]
    show "gene_pool sf \<noteq> [] \<and> fitness (gene_pool sf ! 0) = 0"
      by (auto simp: hd_conv_nth)
  qed
  have pass: "case loop_body target s g of
     Inl e \<Rightarrow> evolve target s g = Some (Inl e)
   | Inr (stop, s', g') \<Rightarrow>
       gene_pool s \<noteq> [] \<and> gene_pool s' \<noteq> []
       \<and> list_all (\<lambda>c. fitness (sort_key fitness (gene_pool s) ! 0) \<le> fitness c) (gene_pool s)
       \<and> (stop \<longleftrightarrow> fitness (gene_pool s' ! 0) = 0)
       \<and> (2 \<le> length (gene_pool s) \<longrightarrow>
             gene_pool s' ! 0 = sort_key fitness (gene_pool s) ! 0
             \<and> (stop \<longleftrightarrow> fitness (sort_key fitness (gene_pool s) ! 0) = 0))
       \<and> (length (gene_pool s) = 1 \<longrightarrow>
             (\<exists>child. reproduce (sort_key fitness (gene_pool s)) target g = Inr (child, g')
                \<and> gene_pool s' ! 0 =
                    (if fitness child < fitness (sort_key fitness (gene_pool s) ! 0) then child
                     else sort_key fitness (gene_pool s) ! 0)))
       \<and> (stop \<longrightarrow> evolve target s g = Some (Inr (s', g')))
       \<and> (\<not> stop \<longrightarrow> evolve target s g = evolve target s' g'
                      \<and> generation s' = generation s + 1)
       \<and> (\<forall>n. \<exists>s''. loop_body target (s\<lparr>generation := n\<rparr>) g = Inr (stop, s'', g')
                      \<and> gene_pool s'' = gene_pool s' \<and> fittest s'' = fittest s')"
  proof (cases "loop_body target s g")
    case (Inl e)
    then show ?thesis by (simp add: evolve_raises)
  next
  case (Inr x)
  then obtain stop s' g' where lb: "loop_body target s g = Inr (stop, s', g')"
    by (cases x) auto
  let ?pool = "sort_key fitness (gene_pool s)"
  from loop_body_Inr [OF lb] obtain child where
    ne: "?pool \<noteq> []" and
    p': "gene_pool s' = (if fitness child < fitness (last ?pool)
                         then butlast ?pool @ [child] else ?pool)" and
    st: "stop = (fitness (hd (gene_pool s')) = 0)" and
    gen: "generation s' = (if stop then generation s else generation s + 1)"
    by blast
  from ne have ne0: "gene_pool s \<noteq> []" by auto
  from ne p' have ne': "gene_pool s' \<noteq> []" by (auto split: if_splits)
  with st have check: "stop \<longleftrightarrow> fitness (gene_pool s' ! 0) = 0"
    by (simp add: hd_conv_nth)
  have least: "list_all (\<lambda>c. fitness (?pool ! 0) \<le> fitness c) (gene_pool s)"
    by (rule sorted_head_least)
  have many: "2 \<le> length (gene_pool s) \<longrightarrow>
             gene_pool s' ! 0 = ?pool ! 0 \<and> (stop \<longleftrightarrow> fitness (?pool ! 0) = 0)"
    using loop_body_front [OF lb] by auto
  have single: "length (gene_pool s) = 1 \<longrightarrow>
             (\<exists>child. reproduce ?pool target g = Inr (child, g')
                \<and> gene_pool s' ! 0 =
                    (if fitness child < fitness (?pool ! 0) then child else ?pool ! 0))"
    using loop_body_single [OF lb] by blast
  have stops: "stop \<longrightarrow> evolve target s g = Some (Inr (s', g'))"
    using lb by (subst evolve.simps) simp
  have continues: "\<not> stop \<longrightarrow> evolve target s g = evolve target s' g'
                        \<and> generation s' = generation s + 1"
    using lb gen by (subst evolve.simps) simp
  have no_cap: "\<forall>n. \<exists>s''. loop_body target (s\<lparr>generation := n\<rparr>) g = Inr (stop, s'', g')
                        \<and> gene_pool s'' = gene_pool s' \<and> fittest s'' = fittest s'"
    using loop_body_generation [OF lb] by blast
    from ne0 ne' least check many single stops continues no_cap show ?thesis
      unfolding lb by simp
  qed
  from pass only show ?thesis by (rule conjI)
qed

theorem evolve_exits_witness:
  "loop_body ''c''
     \<lparr>gene_pool = [\<lparr>dna = ''a'', fitness = 4\<rparr>, \<lparr>dna = ''b'', fitness = 1\<rparr>],
      generation = 1, fittest = []\<rparr>
     (0 ## 0 ## 0 ## 0 ## 0 ## 2 ## 0 ## 0 ## 0 ## 0 ## 0 ## 4 ## sconst 0)
   = Inr (False,
          \<lparr>gene_pool = [\<lparr>dna = ''b'', fitness = 1\<rparr>, \<lparr>dna = ''c'', fitness = 0\<rparr>],
           generation = 2, fittest = [\<lparr>dna = ''b'', fitness = 1\<rparr>]\<rparr>,
          0 ## 0 ## 0 ## 0 ## 0 ## 4 ## sconst 0)
   \<and> evolve ''c''
     \<lparr>gene_pool = [\<lparr>dna = ''a'', fitness = 4\<rparr>, \<lparr>dna = ''b'', fitness = 1\<rparr>],
      generation = 1, fittest = []\<rparr>
     (0 ## 0 ## 0 ## 0 ## 0 ## 2 ## 0 ## 0 ## 0 ## 0 ## 0 ## 4 ## sconst 0)
   = evolve ''c''
     \<lparr>gene_pool = [\<lparr>dna = ''b'', fitness = 1\<rparr>, \<lparr>dna = ''c'', fitness = 0\<rparr>],
      generation = 2, fittest = [\<lparr>dna = ''b'', fitness = 1\<rparr>]\<rparr>
     (0 ## 0 ## 0 ## 0 ## 0 ## 4 ## sconst 0)
   \<and> loop_body ''c''
     \<lparr>gene_pool = [\<lparr>dna = ''b'', fitness = 1\<rparr>, \<lparr>dna = ''c'', fitness = 0\<rparr>],
      generation = 2, fittest = [\<lparr>dna = ''b'', fitness = 1\<rparr>]\<rparr>
     (0 ## 0 ## 0 ## 0 ## 0 ## 4 ## sconst 0)
   = Inr (True,
          \<lparr>gene_pool = [\<lparr>dna = ''c'', fitness = 0\<rparr>, \<lparr>dna = ''c'', fitness = 0\<rparr>],
           generation = 2,
           fittest = [\<lparr>dna = ''b'', fitness = 1\<rparr>, \<lparr>dna = ''c'', fitness = 0\<rparr>]\<rparr>, sconst 0)
   \<and> evolve ''c''
     \<lparr>gene_pool = [\<lparr>dna = ''b'', fitness = 1\<rparr>, \<lparr>dna = ''c'', fitness = 0\<rparr>],
      generation = 2, fittest = [\<lparr>dna = ''b'', fitness = 1\<rparr>]\<rparr>
     (0 ## 0 ## 0 ## 0 ## 0 ## 4 ## sconst 0)
   = Some (Inr (\<lparr>gene_pool = [\<lparr>dna = ''c'', fitness = 0\<rparr>, \<lparr>dna = ''c'', fitness = 0\<rparr>],
           generation = 2,
           fittest = [\<lparr>dna = ''b'', fitness = 1\<rparr>, \<lparr>dna = ''c'', fitness = 0\<rparr>]\<rparr>, sconst 0))
   \<and> loop_body [CHR 0x01]
     \<lparr>gene_pool = [\<lparr>dna = [CHR 0x00], fitness = 1\<rparr>, \<lparr>dna = [CHR 0x02], fitness = 1\<rparr>],
      generation = 1, fittest = []\<rparr>
     (0 ## 0 ## 0 ## 0 ## 0 ## 0 ## sconst 0)
   = Inl ValueError
   \<and> evolve [CHR 0x01]
     \<lparr>gene_pool = [\<lparr>dna = [CHR 0x00], fitness = 1\<rparr>, \<lparr>dna = [CHR 0x02], fitness = 1\<rparr>],
      generation = 1, fittest = []\<rparr>
     (0 ## 0 ## 0 ## 0 ## 0 ## 0 ## sconst 0)
   = Some (Inl ValueError)
   \<and> length (gene_pool \<lparr>gene_pool = [\<lparr>dna = ''b'', fitness = 1\<rparr>], generation = 1,
                           fittest = []\<rparr>) = 1
   \<and> evolve ''c''
     \<lparr>gene_pool = [\<lparr>dna = ''b'', fitness = 1\<rparr>], generation = 1, fittest = []\<rparr>
     (0 ## 0 ## 0 ## 0 ## 0 ## 2 ## sconst 0)
   = Some (Inr (\<lparr>gene_pool = [\<lparr>dna = ''c'', fitness = 0\<rparr>], generation = 1,
                 fittest = [\<lparr>dna = ''b'', fitness = 1\<rparr>]\<rparr>, sconst 0))"
proof -
  let ?A = "\<lparr>gene_pool = [\<lparr>dna = ''a'', fitness = 4\<rparr>, \<lparr>dna = ''b'', fitness = 1\<rparr>],
      generation = 1, fittest = []\<rparr>"
  let ?B = "\<lparr>gene_pool = [\<lparr>dna = ''b'', fitness = 1\<rparr>, \<lparr>dna = ''c'', fitness = 0\<rparr>],
      generation = 2, fittest = [\<lparr>dna = ''b'', fitness = 1\<rparr>]\<rparr>"
  let ?R = "\<lparr>gene_pool = [\<lparr>dna = [CHR 0x00], fitness = 1\<rparr>, \<lparr>dna = [CHR 0x02], fitness = 1\<rparr>],
      generation = 1, fittest = []\<rparr>"
  note pass1 = run_pass1 [of "0 ## 0 ## 0 ## 0 ## 0 ## 4 ## sconst 0"]
  note pass2 = run_pass2 [of "sconst 0"]
  note pass3 = raising_pass [of "sconst 0"]
  from evolve_exits [of "''c''" ?A "0 ## 0 ## 0 ## 0 ## 0 ## 2 ## 0 ## 0 ## 0 ## 0 ## 0 ## 4 ## sconst 0"]
  have e1: "evolve ''c'' ?A (0 ## 0 ## 0 ## 0 ## 0 ## 2 ## 0 ## 0 ## 0 ## 0 ## 0 ## 4 ## sconst 0)
              = evolve ''c'' ?B (0 ## 0 ## 0 ## 0 ## 0 ## 4 ## sconst 0)"
    unfolding pass1 sum.case prod.case by blast
  from evolve_exits [of "''c''" ?B "0 ## 0 ## 0 ## 0 ## 0 ## 4 ## sconst 0"]
  have e2: "evolve ''c'' ?B (0 ## 0 ## 0 ## 0 ## 0 ## 4 ## sconst 0)
     = Some (Inr (\<lparr>gene_pool = [\<lparr>dna = ''c'', fitness = 0\<rparr>, \<lparr>dna = ''c'', fitness = 0\<rparr>],
           generation = 2,
           fittest = [\<lparr>dna = ''b'', fitness = 1\<rparr>, \<lparr>dna = ''c'', fitness = 0\<rparr>]\<rparr>, sconst 0))"
    unfolding pass2 sum.case prod.case by blast
  from evolve_exits [of "[CHR 0x01]" ?R "0 ## 0 ## 0 ## 0 ## 0 ## 0 ## sconst 0"]
  have e3: "evolve [CHR 0x01] ?R (0 ## 0 ## 0 ## 0 ## 0 ## 0 ## sconst 0) = Some (Inl ValueError)"
    unfolding pass3 sum.case by blast
  let ?S = "\<lparr>gene_pool = [\<lparr>dna = ''b'', fitness = 1\<rparr>], generation = 1, fittest = []\<rparr>"
  note pass4 = single_pass [of "sconst 0"]
  from evolve_exits [of "''c''" ?S "0 ## 0 ## 0 ## 0 ## 0 ## 2 ## sconst 0"]
  have e4: "evolve ''c'' ?S (0 ## 0 ## 0 ## 0 ## 0 ## 2 ## sconst 0)
     = Some (Inr (\<lparr>gene_pool = [\<lparr>dna = ''c'', fitness = 0\<rparr>], generation = 1,
                   fittest = [\<lparr>dna = ''b'', fitness = 1\<rparr>]\<rparr>, sconst 0))"
    unfolding pass4 sum.case prod.case by blast
  have one: "length (gene_pool ?S) = 1" by simp
  from pass1 e1 pass2 e2 pass3 e3 one e4 show ?thesis by blast
qed

section \<open>The winner is recorded\<close>

lemma generations_Suc_pass:
  assumes "generations k target s0 g0 = Inr (False, s, g1)"
    and "loop_body target s g1 = Inr (False, s', g2)"
  shows "generations (Suc k) target s0 g0 = Inr (False, s', g2)"
  using assms
proof (induction k arbitrary: s0 g0)
  case 0
  then show ?case by simp
next
  case (Suc k)
  from Suc.prems(1) obtain b sa ga where
    lb: "loop_body target s0 g0 = Inr (b, sa, ga)"
    by (auto split: sum.splits)
  with Suc.prems(1) have nb: "\<not> b" and rest: "generations k target sa ga = Inr (False, s, g1)"
    by (auto split: if_splits)
  from Suc.IH [OF rest Suc.prems(2)] have "generations (Suc k) target sa ga = Inr (False, s', g2)" .
  with lb nb show ?case
    by (simp del: generations.simps add: generations.simps(2) [of "Suc k" target s0 g0])
qed

lemma well_formed_zero:
  assumes "well_formed target c" and "fitness c = 0"
  shows "c = \<lparr>dna = target, fitness = 0\<rparr>"
proof -
  from assms(1) have len: "length (dna c) = length target"
    and fit: "calc_fitness (dna c) target = Inr (fitness c)"
    by (simp_all add: well_formed_def)
  from len fit assms(2) have "sq_dist_sum (dna c) target (length (dna c)) = 0"
    by (simp add: calc_fitness_prefix)
  then have "\<forall>i<length (dna c). dna c ! i = target ! i"
    by (simp only: sq_dist_sum_zero_iff)
  with len have "dna c = target"
    by (simp add: list_eq_iff_nth_eq)
  with assms(2) show ?thesis by simp
qed

lemma well_formed_nonneg: "well_formed target c \<Longrightarrow> 0 \<le> fitness c"
  by (auto simp: well_formed_def dest: calc_fitness_nonneg)

text \<open>
  Claim C10. Take a run from the initial state with at least two candidates. If the loop
  returns, the last candidate appended to \<open>fittest\<close> is the first element of the final
  pool, has fitness \<open>0\<close> and carries the target as its genome. In every pass of the run the
  candidate appended to \<open>fittest\<close> and the candidate the termination check looks at are
  the same first element of the sorted pool, which the replacement (at the last position)
  does not touch. So when a pass puts a child of fitness \<open>0\<close> at the end of the pool and
  goes on, it is the next pass that, after its sort, appends the winner to \<open>fittest\<close> and
  leaves the loop.
\<close>

theorem winner_recorded:
  assumes "2 \<le> n" and "initial_state n target g = Inr (s0, g0)"
  shows "(\<forall>s g'. evolve target s0 g0 = Some (Inr (s, g')) \<longrightarrow>
            fittest s \<noteq> [] \<and> last (fittest s) = gene_pool s ! 0
            \<and> last (fittest s) = \<lparr>dna = target, fitness = 0\<rparr>)
       \<and> (\<forall>k s g1 stop s' g2.
            generations k target s0 g0 = Inr (False, s, g1) \<longrightarrow>
            loop_body target s g1 = Inr (stop, s', g2) \<longrightarrow>
              last (fittest s') = gene_pool s' ! 0
              \<and> gene_pool s' ! 0 = sort_key fitness (gene_pool s) ! 0
              \<and> (stop \<longleftrightarrow> fitness (last (fittest s')) = 0))
       \<and> (\<forall>k s g1 s' g2 stop' s'' g3.
            generations k target s0 g0 = Inr (False, s, g1) \<longrightarrow>
            loop_body target s g1 = Inr (False, s', g2) \<longrightarrow>
            fitness (last (gene_pool s')) = 0 \<longrightarrow>
            loop_body target s' g2 = Inr (stop', s'', g3) \<longrightarrow>
              stop' \<and> last (fittest s'') = \<lparr>dna = target, fitness = 0\<rparr>)"
proof -
  from initial_state_Inr [of n target g] assms(2)
  have len0: "length (gene_pool s0) = n" and wf0: "list_all (well_formed target) (gene_pool s0)"
    by auto
  have pass: "last (fittest s') = gene_pool s' ! 0
              \<and> gene_pool s' ! 0 = sort_key fitness (gene_pool s) ! 0
              \<and> (stop \<longleftrightarrow> fitness (last (fittest s')) = 0)
              \<and> fittest s' \<noteq> []
              \<and> length (gene_pool s') = n
              \<and> list_all (well_formed target) (gene_pool s')"
    if run: "generations k target s0 g0 = Inr (False, s, g1)"
      and lb: "loop_body target s g1 = Inr (stop, s', g2)"
    for k s g1 stop s' g2
  proof -
    from generations_pool [OF run wf0] len0
    have len: "length (gene_pool s) = n" and wf: "list_all (well_formed target) (gene_pool s)"
      by simp_all
    from len assms(1) have two: "2 \<le> length (gene_pool s)" by simp
    from loop_body_Inr [OF lb] have "fittest s' \<noteq> []" by auto
    with loop_body_front [OF lb two] loop_body_pool [OF lb wf] len show ?thesis
      by simp
  qed
  have final: "fittest s \<noteq> [] \<and> last (fittest s) = gene_pool s ! 0
            \<and> last (fittest s) = \<lparr>dna = target, fitness = 0\<rparr>"
    if ev: "evolve target s0 g0 = Some (Inr (s, g'))" for s g'
  proof -
    from evolve_Some [OF ev] obtain k where
      "generations k target s0 g0 = Inr (True, s, g')" by auto
    from generations_last_pass [OF this] obtain j s1 g1 where
      run: "generations j target s0 g0 = Inr (False, s1, g1)" and
      lb: "loop_body target s1 g1 = Inr (True, s, g')"
      by blast
    from pass [OF run lb] have
      l: "last (fittest s) = gene_pool s ! 0" and z: "fitness (last (fittest s)) = 0" and
      ne: "fittest s \<noteq> []" and len: "length (gene_pool s) = n" and
      wf: "list_all (well_formed target) (gene_pool s)"
      by blast+
    from len assms(1) have "gene_pool s ! 0 \<in> set (gene_pool s)" by simp
    with wf l have "well_formed target (last (fittest s))"
      by (simp add: list_all_iff)
    from well_formed_zero [OF this z] l ne show ?thesis by simp
  qed
  have next_pass: "stop' \<and> last (fittest s'') = \<lparr>dna = target, fitness = 0\<rparr>"
    if run: "generations k target s0 g0 = Inr (False, s, g1)"
      and lb: "loop_body target s g1 = Inr (False, s', g2)"
      and win: "fitness (last (gene_pool s')) = 0"
      and lb': "loop_body target s' g2 = Inr (stop', s'', g3)"
    for k s g1 s' g2 stop' s'' g3
  proof -
    from pass [OF run lb] have len': "length (gene_pool s') = n"
      and wf': "list_all (well_formed target) (gene_pool s')"
      by blast+
    have run': "generations (Suc k) target s0 g0 = Inr (False, s', g2)"
      using run lb by (rule generations_Suc_pass)
    from pass [OF run' lb'] have
      l: "last (fittest s'') = gene_pool s'' ! 0" and
      front: "gene_pool s'' ! 0 = sort_key fitness (gene_pool s') ! 0" and
      st: "stop' \<longleftrightarrow> fitness (last (fittest s'')) = 0" and
      len'': "length (gene_pool s'') = n" and
      wf'': "list_all (well_formed target) (gene_pool s'')"
      by blast+
    from len' assms(1) have ne': "gene_pool s' \<noteq> []" by auto
    then have "last (gene_pool s') \<in> set (gene_pool s')" by simp
    from hd_sort_key_least [OF this] win
    have "fitness (hd (sort_key fitness (gene_pool s'))) \<le> 0" by simp
    moreover from ne' have "sort_key fitness (gene_pool s') \<noteq> []"
      by (metis length_sort length_0_conv)
    ultimately have le: "fitness (gene_pool s'' ! 0) \<le> 0"
      using front by (simp add: hd_conv_nth)
    from len'' assms(1) have "gene_pool s'' ! 0 \<in> set (gene_pool s'')" by simp
    with wf'' have wfc: "well_formed target (gene_pool s'' ! 0)"
      by (simp add: list_all_iff)
    from well_formed_nonneg [OF wfc] le have z: "fitness (gene_pool s'' ! 0) = 0" by simp
    from well_formed_zero [OF wfc z] l st z show ?thesis by simp
  qed
  from final pass next_pass show ?thesis
    by blast
qed

theorem winner_recorded_witness:
  "(2::nat) \<le> 2
   \<and> initial_state 2 ''c''
     (0 ## 1 ## 0 ## 0 ## 0 ## 0 ## 0 ## 2 ## 0 ## 0 ## 0 ## 0 ## 0 ## 4 ## sconst 0)
   = Inr (\<lparr>gene_pool = [\<lparr>dna = ''a'', fitness = 4\<rparr>, \<lparr>dna = ''b'', fitness = 1\<rparr>],
           generation = 1, fittest = []\<rparr>,
          0 ## 0 ## 0 ## 0 ## 0 ## 2 ## 0 ## 0 ## 0 ## 0 ## 0 ## 4 ## sconst 0)
   \<and> evolve ''c''
     \<lparr>gene_pool = [\<lparr>dna = ''a'', fitness = 4\<rparr>, \<lparr>dna = ''b'', fitness = 1\<rparr>],
      generation = 1, fittest = []\<rparr>
     (0 ## 0 ## 0 ## 0 ## 0 ## 2 ## 0 ## 0 ## 0 ## 0 ## 0 ## 4 ## sconst 0)
   = Some (Inr (\<lparr>gene_pool = [\<lparr>dna = ''c'', fitness = 0\<rparr>, \<lparr>dna = ''c'', fitness = 0\<rparr>],
           generation = 2,
           fittest = [\<lparr>dna = ''b'', fitness = 1\<rparr>, \<lparr>dna = ''c'', fitness = 0\<rparr>]\<rparr>, sconst 0))
   \<and> last [\<lparr>dna = ''b'', fitness = 1\<rparr>, \<lparr>dna = ''c'', fitness = 0\<rparr>]
       = \<lparr>dna = ''c'', fitness = 0\<rparr>"
proof -
  let ?s2 = "\<lparr>gene_pool = [\<lparr>dna = ''c'', fitness = 0\<rparr>, \<lparr>dna = ''c'', fitness = 0\<rparr>],
           generation = 2,
           fittest = [\<lparr>dna = ''b'', fitness = 1\<rparr>, \<lparr>dna = ''c'', fitness = 0\<rparr>]\<rparr>"
  have two: "(2::nat) \<le> 2" by simp
  note init = run_init [of "0 ## 0 ## 0 ## 0 ## 0 ## 2 ## 0 ## 0 ## 0 ## 0 ## 0 ## 4 ## sconst 0"]
  note ev = evolve_generations [OF run_generations [of "sconst 0"]]
  from winner_recorded [OF two init] ev
  have "last (fittest ?s2) = \<lparr>dna = ''c'', fitness = 0\<rparr>"
    by blast
  then have "last [\<lparr>dna = ''b'', fitness = 1\<rparr>, \<lparr>dna = ''c'', fitness = 0\<rparr>]
       = \<lparr>dna = ''c'', fitness = 0\<rparr>"
    by simp
  with two init ev show ?thesis by blast
qed

section \<open>The program on the store\<close>

text \<open>
  On a store without dangling references, \<open>mutate_store\<close> and \<open>loop_body_store\<close> compute
  what \<open>mutate\<close> and \<open>loop_body\<close> compute on the values read through the store
  (lemmas \<open>mutate_store_refines\<close> and \<open>loop_body_store_refines\<close>), and they change the
  store only by allocation.
\<close>

lemma mutate_store_refines:
  assumes "valid_ref h parent1" and "valid_ref h parent2"
  shows "mutate_store parent1 parent2 target h g =
           (case mutate (deref h parent1) (deref h parent2) target g of
              Inl e \<Rightarrow> Inl e
            | Inr (c, g') \<Rightarrow> Inr (length (cand_objs h), install h c, g'))"
proof -
  from assms have v: "dna_ref (cand_objs h ! parent2) < length (dna_objs h)"
    by (simp add: valid_ref_def)
  show ?thesis
    unfolding mutate_store_def mutate_def Let_def
    using v
    by (simp add: deref_def install_def nth_append split: sum.splits prod.splits)
qed

lemma heap_extends_install: "heap_extends h (install h c)"
  by (simp add: heap_extends_def install_def)

lemma heap_extends_deref:
  assumes "heap_extends h h'" and "valid_ref h r"
  shows "deref h' r = deref h r \<and> valid_ref h' r"
proof -
  from assms(2) have r: "r < length (cand_objs h)"
    and d: "dna_ref (cand_objs h ! r) < length (dna_objs h)"
    by (simp_all add: valid_ref_def)
  from assms(1) have td: "take (length (dna_objs h)) (dna_objs h') = dna_objs h"
    and tc: "take (length (cand_objs h)) (cand_objs h') = cand_objs h"
    by (simp_all add: heap_extends_def)
  from tc r have c: "cand_objs h' ! r = cand_objs h ! r"
    by (metis nth_take)
  from td d have "dna_objs h' ! dna_ref (cand_objs h ! r) = dna_objs h ! dna_ref (cand_objs h ! r)"
    by (metis nth_take)
  moreover from tc have "length (cand_objs h) \<le> length (cand_objs h')"
    by (metis length_take min.cobounded1)
  moreover from td have "length (dna_objs h) \<le> length (dna_objs h')"
    by (metis length_take min.cobounded1)
  ultimately show ?thesis
    using c r d by (simp add: deref_def valid_ref_def)
qed

lemma mutate_store_Inr:
  assumes "mutate_store parent1 parent2 target h g = Inr (child, h', g')"
    and "valid_ref h parent1" and "valid_ref h parent2"
  shows "\<exists>c. mutate (deref h parent1) (deref h parent2) target g = Inr (c, g')
           \<and> h' = install h c \<and> child = length (cand_objs h)"
  using assms(1) unfolding mutate_store_refines [OF assms(2,3)]
  by (auto split: sum.splits)

lemma loop_body_store_Inr:
  assumes "loop_body_store target s g = Inr (stop, s', g')"
    and "list_all (valid_ref (st_heap s)) (st_gene_pool s)"
  defines "pool \<equiv> sort_key (\<lambda>r. fitness_val (cand_objs (st_heap s) ! r)) (st_gene_pool s)"
  shows "\<exists>parent1 parent2 g2 c.
           parent1 \<in> set (st_gene_pool s) \<and> parent2 \<in> set (st_gene_pool s)
           \<and> mutate (deref (st_heap s) parent1) (deref (st_heap s) parent2) target g2 = Inr (c, g')
           \<and> st_heap s' = install (st_heap s) c
           \<and> pool \<noteq> []
           \<and> (st_gene_pool s' = pool
                \<or> st_gene_pool s' = pool[length pool - 1 := length (cand_objs (st_heap s))])
           \<and> st_fittest s' = st_fittest s @ [pool ! 0]"
proof -
  from assms(1) obtain best child h' pool' first where
    b: "getitem pool 0 = Inr best" and
    r: "reproduce_store pool target (st_heap s) g = Inr (child, h', g')" and
    w: "replace_worst_store h' pool child = Inr pool'" and
    res: "st_heap s' = h'" "st_gene_pool s' = pool'" "st_fittest s' = st_fittest s @ [best]"
    unfolding loop_body_store_def pool_def Let_def
    by (auto split: sum.splits if_splits)
  from r obtain parent1 g1 parent2 g2 where
    p1: "random_parent pool g = Inr (parent1, g1)" and
    p2: "random_parent pool g1 = Inr (parent2, g2)" and
    mu: "mutate_store parent1 parent2 target (st_heap s) g2 = Inr (child, h', g')"
    by (auto simp: reproduce_store_def split: sum.splits)
  from random_parent_Inr [OF p1] random_parent_Inr [OF p2]
  have in1: "parent1 \<in> set (st_gene_pool s)" and in2: "parent2 \<in> set (st_gene_pool s)"
    by (simp_all add: pool_def)
  with assms(2) have "valid_ref (st_heap s) parent1" and "valid_ref (st_heap s) parent2"
    by (simp_all add: list_all_iff)
  from mutate_store_Inr [OF mu this] obtain c where
    c: "mutate (deref (st_heap s) parent1) (deref (st_heap s) parent2) target g2 = Inr (c, g')"
       "h' = install (st_heap s) c" "child = length (cand_objs (st_heap s))"
    by blast
  from b have ne: "pool \<noteq> []" and best: "best = pool ! 0"
    by (auto simp: getitem_first hd_conv_nth split: if_splits)
  from w ne have "pool' = pool \<or> pool' = butlast pool @ [child]"
    by (auto simp: replace_worst_store_def getitem_last setitem_last split: if_splits)
  with ne c(3) have "pool' = pool \<or> pool' = pool[length pool - 1 := length (cand_objs (st_heap s))]"
    by (simp add: butlast_snoc_update)
  with in1 in2 c ne res best show ?thesis by blast
qed

lemma insort_key_map:
  "map f (insort_key (\<lambda>x. k (f x)) x xs) = insort_key k (f x) (map f xs)"
  by (induction xs) simp_all

lemma sort_key_map:
  "map f (sort_key (\<lambda>x. k (f x)) xs) = sort_key k (map f xs)"
  by (induction xs) (simp_all add: insort_key_map)

lemma fitness_deref: "fitness (deref h r) = fitness_val (cand_objs h ! r)"
  by (simp add: deref_def)

lemma sort_key_deref:
  "map (deref h) (sort_key (\<lambda>r. fitness_val (cand_objs h ! r)) refs)
     = sort_key fitness (map (deref h) refs)"
  using sort_key_map [of "deref h" fitness refs] by (simp add: fitness_deref)

lemma getitem_map:
  "getitem (map f xs) i = (case getitem xs i of Inl e \<Rightarrow> Inl e | Inr x \<Rightarrow> Inr (f x))"
  by (auto simp: getitem_def list_index_def Let_def)

lemma setitem_map:
  "setitem (map f xs) i (f v) = (case setitem xs i v of Inl e \<Rightarrow> Inl e | Inr ys \<Rightarrow> Inr (map f ys))"
  by (auto simp: setitem_def list_index_def Let_def map_update)

lemma random_parent_map:
  "random_parent (map f xs) g =
     (case random_parent xs g of Inl e \<Rightarrow> Inl e | Inr (x, g') \<Rightarrow> Inr (f x, g'))"
  by (simp add: random_parent_def getitem_map split: sum.splits)

lemma reproduce_store_refines:
  assumes "list_all (valid_ref h) pool"
  shows "reproduce_store pool target h g =
           (case reproduce (map (deref h) pool) target g of
              Inl e \<Rightarrow> Inl e
            | Inr (c, g') \<Rightarrow> Inr (length (cand_objs h), install h c, g'))"
proof (cases "random_parent pool g")
  case (Inl e)
  then show ?thesis
    by (simp add: reproduce_store_def reproduce_def random_parent_map)
next
  case (Inr x)
  then obtain parent1 g1 where p1: "random_parent pool g = Inr (parent1, g1)"
    by (cases x) auto
  show ?thesis
  proof (cases "random_parent pool g1")
    case (Inl e)
    with p1 show ?thesis
      by (simp add: reproduce_store_def reproduce_def random_parent_map)
  next
    case (Inr y)
    then obtain parent2 g2 where p2: "random_parent pool g1 = Inr (parent2, g2)"
      by (cases y) auto
    from random_parent_Inr [OF p1] random_parent_Inr [OF p2] assms
    have "valid_ref h parent1" and "valid_ref h parent2"
      by (simp_all add: list_all_iff)
    from mutate_store_refines [OF this] p1 p2 show ?thesis
      by (simp add: reproduce_store_def reproduce_def random_parent_map)
  qed
qed

lemma deref_install:
  "deref (install h c) (length (cand_objs h)) = c"
  by (simp add: deref_def install_def)

lemma deref_install_old:
  "valid_ref h r \<Longrightarrow> deref (install h c) r = deref h r \<and> valid_ref (install h c) r"
  using heap_extends_deref [OF heap_extends_install] by blast

lemma valid_ref_install: "valid_ref (install h c) (length (cand_objs h))"
  by (simp add: valid_ref_def install_def)

lemma map_deref_install:
  "list_all (valid_ref h) refs \<Longrightarrow>
   map (deref (install h c)) refs = map (deref h) refs \<and> list_all (valid_ref (install h c)) refs"
  by (induction refs) (simp_all add: deref_install_old)

lemma loop_body_store_refines:
  assumes vp: "list_all (valid_ref (st_heap s)) (st_gene_pool s)"
    and vf: "list_all (valid_ref (st_heap s)) (st_fittest s)"
  shows "case loop_body_store target s g of
           Inl e \<Rightarrow> loop_body target (abstract_state s) g = Inl e
         | Inr (stop, s', g') \<Rightarrow>
             loop_body target (abstract_state s) g = Inr (stop, abstract_state s', g')
             \<and> list_all (valid_ref (st_heap s')) (st_gene_pool s')
             \<and> list_all (valid_ref (st_heap s')) (st_fittest s')"
proof -
  let ?h = "st_heap s"
  let ?D = "deref ?h"
  define pool where "pool = sort_key (\<lambda>r. fitness_val (cand_objs ?h ! r)) (st_gene_pool s)"
  have apool: "sort_key fitness (gene_pool (abstract_state s)) = map ?D pool"
    by (simp add: abstract_state_def pool_def sort_key_deref)
  from vp have vpool: "list_all (valid_ref ?h) pool"
    by (simp add: pool_def list_all_iff)
  show ?thesis
  proof (cases "pool = []")
    case True
    then show ?thesis
      unfolding loop_body_store_def loop_body_def Let_def apool pool_def [symmetric]
      by (simp add: getitem_first)
  next
    case ne: False
    then have best: "getitem pool 0 = Inr (hd pool)" "getitem (map ?D pool) 0 = Inr (?D (hd pool))"
      by (simp_all add: getitem_first hd_map)
    from ne vpool have vbest: "valid_ref ?h (hd pool)" and vworst: "valid_ref ?h (last pool)"
      by (simp_all add: list_all_iff)
    show ?thesis
    proof (cases "reproduce (map ?D pool) target g")
      case (Inl e)
      then show ?thesis
        unfolding loop_body_store_def loop_body_def Let_def apool pool_def [symmetric] best
        by (simp add: reproduce_store_refines [OF vpool])
    next
      case (Inr x)
      then obtain c g' where rep: "reproduce (map ?D pool) target g = Inr (c, g')"
        by (cases x) auto
      let ?h' = "install ?h c"
      let ?child = "length (cand_objs ?h)"
      have reps: "reproduce_store pool target ?h g = Inr (?child, ?h', g')"
        by (simp add: reproduce_store_refines [OF vpool] rep)
      define pool' where
        "pool' = (if fitness c < fitness (?D (last pool)) then butlast pool @ [?child] else pool)"
      have fc: "fitness_val (cand_objs ?h' ! ?child) = fitness c"
        using deref_install [of ?h c] by (simp add: fitness_deref [symmetric])
      have fold: "fitness_val (cand_objs ?h' ! r) = fitness (?D r)" if "valid_ref ?h r" for r
        using deref_install_old [OF that, of c] by (simp add: fitness_deref [symmetric])
      have rws: "replace_worst_store ?h' pool ?child = Inr pool'"
        using ne by (simp add: replace_worst_store_def getitem_last setitem_last fc
            fold [OF vworst] pool'_def)
      have rw: "replace_worst (map ?D pool) c = Inr (map (deref ?h') pool')"
      proof -
        from map_deref_install [OF vpool, of c]
        have m: "map (deref ?h') pool = map ?D pool" by simp
        from vpool have "list_all (valid_ref ?h) (butlast pool)"
          by (auto simp: list_all_iff dest: in_set_butlastD)
        from map_deref_install [OF this, of c]
        have mb: "map (deref ?h') (butlast pool) = map ?D (butlast pool)" by simp
        from ne show ?thesis
          by (simp add: replace_worst_def getitem_last setitem_last pool'_def m mb
              last_map map_butlast deref_install)
      qed
      have vpool': "list_all (valid_ref ?h') pool'"
      proof -
        from map_deref_install [OF vpool, of c] have a: "list_all (valid_ref ?h') pool" by simp
        then have "list_all (valid_ref ?h') (butlast pool)"
          by (auto simp: list_all_iff dest: in_set_butlastD)
        with a show ?thesis
          by (simp add: pool'_def valid_ref_install)
      qed
      from ne have ne': "pool' \<noteq> []" by (simp add: pool'_def)
      then have first: "getitem pool' 0 = Inr (hd pool')"
        "getitem (map (deref ?h') pool') 0 = Inr (deref ?h' (hd pool'))"
        by (simp_all add: getitem_first hd_map)
      have hist: "map (deref ?h') (st_fittest s @ [hd pool]) = map ?D (st_fittest s) @ [?D (hd pool)]"
        using map_deref_install [OF vf, of c] deref_install_old [OF vbest, of c] by simp
      have vhist: "list_all (valid_ref ?h') (st_fittest s @ [hd pool])"
        using map_deref_install [OF vf, of c] deref_install_old [OF vbest, of c] by simp
      have fit_first: "fitness_val (cand_objs ?h' ! hd pool') = fitness (deref ?h' (hd pool'))"
        by (simp add: fitness_deref)
      show ?thesis
        unfolding loop_body_store_def loop_body_def Let_def apool pool_def [symmetric] best
          reps rep rws rw first sum.case prod.case fit_first
        using vpool' vhist hist
        by (simp add: abstract_state_def)
    qed
  qed
qed

lemma store_mutate_run:
  "mutate_store 0 0 ''c''
     \<lparr>dna_objs = [''b'', ''a''],
      cand_objs = [\<lparr>dna_ref = 0, fitness_val = 1\<rparr>, \<lparr>dna_ref = 1, fitness_val = 4\<rparr>]\<rparr>
     (0 ## 0 ## 0 ## 2 ## g)
   = Inr (2,
          \<lparr>dna_objs = [''b'', ''a'', ''c''],
           cand_objs = [\<lparr>dna_ref = 0, fitness_val = 1\<rparr>, \<lparr>dna_ref = 1, fitness_val = 4\<rparr>,
                        \<lparr>dna_ref = 2, fitness_val = 0\<rparr>]\<rparr>, g)"
proof -
  let ?h = "\<lparr>dna_objs = [''b'', ''a''],
      cand_objs = [\<lparr>dna_ref = 0, fitness_val = 1\<rparr>, \<lparr>dna_ref = 1, fitness_val = 4\<rparr>]\<rparr>"
  have v: "valid_ref ?h 0" by (simp add: valid_ref_def)
  have d: "deref ?h 0 = \<lparr>dna = ''b'', fitness = 1\<rparr>" by (simp add: deref_def)
  show ?thesis
    unfolding mutate_store_refines [OF v v] d mutate_b_up
    by (simp del: One_nat_def add: install_def)
qed

lemma store_pass_run:
  "loop_body_store ''c''
     \<lparr>st_heap = \<lparr>dna_objs = [''b'', ''a''],
        cand_objs = [\<lparr>dna_ref = 0, fitness_val = 1\<rparr>, \<lparr>dna_ref = 1, fitness_val = 4\<rparr>]\<rparr>,
      st_gene_pool = [1, 0], st_generation = 1, st_fittest = []\<rparr>
     (0 ## 0 ## 0 ## 0 ## 0 ## 2 ## g)
   = Inr (False,
          \<lparr>st_heap = \<lparr>dna_objs = [''b'', ''a'', ''c''],
             cand_objs = [\<lparr>dna_ref = 0, fitness_val = 1\<rparr>, \<lparr>dna_ref = 1, fitness_val = 4\<rparr>,
                          \<lparr>dna_ref = 2, fitness_val = 0\<rparr>]\<rparr>,
           st_gene_pool = [0, 2], st_generation = 2, st_fittest = [0]\<rparr>, g)"
proof -
  let ?h = "\<lparr>dna_objs = [''b'', ''a''],
      cand_objs = [\<lparr>dna_ref = 0, fitness_val = 1\<rparr>, \<lparr>dna_ref = 1, fitness_val = 4\<rparr>]\<rparr>"
  let ?h' = "\<lparr>dna_objs = [''b'', ''a'', ''c''],
             cand_objs = [\<lparr>dna_ref = 0, fitness_val = 1\<rparr>, \<lparr>dna_ref = 1, fitness_val = 4\<rparr>,
                          \<lparr>dna_ref = 2, fitness_val = 0\<rparr>]\<rparr>"
  have srt: "sort_key (\<lambda>r. fitness_val (cand_objs ?h ! r)) [1, 0] = [0, 1]"
    by simp
  have rep: "reproduce_store [0, 1] ''c'' ?h (0 ## 0 ## 0 ## 0 ## 0 ## 2 ## g) = Inr (2, ?h', g)"
    by (simp del: One_nat_def add: reproduce_store_def random_parent_first store_mutate_run)
  have rw: "replace_worst_store ?h' [0, 1] 2 = Inr [0, 2]"
    by (simp add: replace_worst_store_def getitem_last setitem_last)
  have first: "fitness_val (cand_objs ?h' ! 0) = 1"
    by simp
  show ?thesis
    unfolding loop_body_store_def Let_def store_state.simps srt rep
    by (simp del: One_nat_def add: rw first getitem_first)
qed

text \<open>
  Claim C5. \<open>mutate\<close> has no side effect on its inputs: when it returns, the store still
  holds every object it held before, unchanged, so both parents read as the same genome
  and fitness as before the call, and the child is a new object. No candidate is ever
  updated in place: a pass of the loop body leaves every object of the store as it was,
  and the pool after the pass is the sorted pool, or the sorted pool with its last reference
  overwritten by the reference to the newly allocated candidate.
\<close>

theorem candidates_never_updated:
  "(valid_ref h parent1 \<and> valid_ref h parent2
      \<and> mutate_store parent1 parent2 target h g = Inr (child, h', g')
    \<longrightarrow> heap_extends h h'
        \<and> deref h' parent1 = deref h parent1 \<and> deref h' parent2 = deref h parent2
        \<and> child = length (cand_objs h))
   \<and> (list_all (valid_ref (st_heap s)) (st_gene_pool s)
      \<and> loop_body_store target s gs = Inr (stop, s', gs')
    \<longrightarrow> heap_extends (st_heap s) (st_heap s')
        \<and> (\<forall>r. valid_ref (st_heap s) r \<longrightarrow> deref (st_heap s') r = deref (st_heap s) r)
        \<and> (let pool = sort_key (\<lambda>r. fitness_val (cand_objs (st_heap s) ! r)) (st_gene_pool s)
           in st_gene_pool s' = pool
              \<or> st_gene_pool s' = pool[length pool - 1 := length (cand_objs (st_heap s))]))"
proof -
  have reproduction: "heap_extends h h'
        \<and> deref h' parent1 = deref h parent1 \<and> deref h' parent2 = deref h parent2
        \<and> child = length (cand_objs h)"
    if v1: "valid_ref h parent1" and v2: "valid_ref h parent2"
      and mu: "mutate_store parent1 parent2 target h g = Inr (child, h', g')"
  proof -
    from mutate_store_Inr [OF mu v1 v2] obtain c where
      c: "h' = install h c" "child = length (cand_objs h)" by blast
    then have ext: "heap_extends h h'" by (simp add: heap_extends_install)
    from heap_extends_deref [OF ext v1] heap_extends_deref [OF ext v2] ext c(2)
    show ?thesis by simp
  qed
  have pass: "heap_extends (st_heap s) (st_heap s')
        \<and> (\<forall>r. valid_ref (st_heap s) r \<longrightarrow> deref (st_heap s') r = deref (st_heap s) r)
        \<and> (let pool = sort_key (\<lambda>r. fitness_val (cand_objs (st_heap s) ! r)) (st_gene_pool s)
           in st_gene_pool s' = pool
              \<or> st_gene_pool s' = pool[length pool - 1 := length (cand_objs (st_heap s))])"
    if v: "list_all (valid_ref (st_heap s)) (st_gene_pool s)"
      and lb: "loop_body_store target s gs = Inr (stop, s', gs')"
  proof -
    from loop_body_store_Inr [OF lb v] obtain c where
      h': "st_heap s' = install (st_heap s) c" and
      p': "st_gene_pool s' = sort_key (\<lambda>r. fitness_val (cand_objs (st_heap s) ! r)) (st_gene_pool s)
           \<or> st_gene_pool s' = (sort_key (\<lambda>r. fitness_val (cand_objs (st_heap s) ! r)) (st_gene_pool s))
                [length (sort_key (\<lambda>r. fitness_val (cand_objs (st_heap s) ! r)) (st_gene_pool s)) - 1
                   := length (cand_objs (st_heap s))]"
      by blast
    from h' have ext: "heap_extends (st_heap s) (st_heap s')"
      by (simp add: heap_extends_install)
    then have "\<forall>r. valid_ref (st_heap s) r \<longrightarrow> deref (st_heap s') r = deref (st_heap s) r"
      by (simp add: heap_extends_deref)
    with ext p' show ?thesis
      by (simp add: Let_def)
  qed
  from reproduction pass show ?thesis
    by blast
qed

theorem candidates_never_updated_witness:
  "mutate_store 0 0 ''c''
     \<lparr>dna_objs = [''b'', ''a''],
      cand_objs = [\<lparr>dna_ref = 0, fitness_val = 1\<rparr>, \<lparr>dna_ref = 1, fitness_val = 4\<rparr>]\<rparr>
     (0 ## 0 ## 0 ## 2 ## sconst 0)
   = Inr (2,
          \<lparr>dna_objs = [''b'', ''a'', ''c''],
           cand_objs = [\<lparr>dna_ref = 0, fitness_val = 1\<rparr>, \<lparr>dna_ref = 1, fitness_val = 4\<rparr>,
                        \<lparr>dna_ref = 2, fitness_val = 0\<rparr>]\<rparr>, sconst 0)
   \<and> deref \<lparr>dna_objs = [''b'', ''a'', ''c''],
           cand_objs = [\<lparr>dna_ref = 0, fitness_val = 1\<rparr>, \<lparr>dna_ref = 1, fitness_val = 4\<rparr>,
                        \<lparr>dna_ref = 2, fitness_val = 0\<rparr>]\<rparr> 0
       = deref \<lparr>dna_objs = [''b'', ''a''],
           cand_objs = [\<lparr>dna_ref = 0, fitness_val = 1\<rparr>, \<lparr>dna_ref = 1, fitness_val = 4\<rparr>]\<rparr> 0
   \<and> loop_body_store ''c''
     \<lparr>st_heap = \<lparr>dna_objs = [''b'', ''a''],
        cand_objs = [\<lparr>dna_ref = 0, fitness_val = 1\<rparr>, \<lparr>dna_ref = 1, fitness_val = 4\<rparr>]\<rparr>,
      st_gene_pool = [1, 0], st_generation = 1, st_fittest = []\<rparr>
     (0 ## 0 ## 0 ## 0 ## 0 ## 2 ## sconst 0)
   = Inr (False,
          \<lparr>st_heap = \<lparr>dna_objs = [''b'', ''a'', ''c''],
             cand_objs = [\<lparr>dna_ref = 0, fitness_val = 1\<rparr>, \<lparr>dna_ref = 1, fitness_val = 4\<rparr>,
                          \<lparr>dna_ref = 2, fitness_val = 0\<rparr>]\<rparr>,
           st_gene_pool = [0, 2], st_generation = 2, st_fittest = [0]\<rparr>, sconst 0)
   \<and> heap_extends
        \<lparr>dna_objs = [''b'', ''a''],
         cand_objs = [\<lparr>dna_ref = 0, fitness_val = 1\<rparr>, \<lparr>dna_ref = 1, fitness_val = 4\<rparr>]\<rparr>
        \<lparr>dna_objs = [''b'', ''a'', ''c''],
         cand_objs = [\<lparr>dna_ref = 0, fitness_val = 1\<rparr>, \<lparr>dna_ref = 1, fitness_val = 4\<rparr>,
                      \<lparr>dna_ref = 2, fitness_val = 0\<rparr>]\<rparr>"
proof -
  let ?h = "\<lparr>dna_objs = [''b'', ''a''],
      cand_objs = [\<lparr>dna_ref = 0, fitness_val = 1\<rparr>, \<lparr>dna_ref = 1, fitness_val = 4\<rparr>]\<rparr>"
  let ?h' = "\<lparr>dna_objs = [''b'', ''a'', ''c''],
             cand_objs = [\<lparr>dna_ref = 0, fitness_val = 1\<rparr>, \<lparr>dna_ref = 1, fitness_val = 4\<rparr>,
                          \<lparr>dna_ref = 2, fitness_val = 0\<rparr>]\<rparr>"
  let ?s = "\<lparr>st_heap = ?h, st_gene_pool = [1, 0], st_generation = 1, st_fittest = []\<rparr>"
  let ?s' = "\<lparr>st_heap = ?h', st_gene_pool = [0, 2], st_generation = 2, st_fittest = [0]\<rparr>"
  note mu = store_mutate_run [of "sconst 0"]
  note pass = store_pass_run [of "sconst 0"]
  have v: "valid_ref ?h 0" by (simp add: valid_ref_def)
  have vs: "list_all (valid_ref (st_heap ?s)) (st_gene_pool ?s)" by (simp add: valid_ref_def)
  from candidates_never_updated [of ?h 0 0 "''c''" "0 ## 0 ## 0 ## 2 ## sconst 0" 2 ?h' "sconst 0"]
    v mu
  have keep: "deref ?h' 0 = deref ?h 0" by blast
  from candidates_never_updated [where s = ?s and target = "''c''"
      and gs = "0 ## 0 ## 0 ## 0 ## 0 ## 2 ## sconst 0" and stop = False and s' = ?s'
      and gs' = "sconst 0"]
    vs pass
  have "heap_extends (st_heap ?s) (st_heap ?s')" by blast
  then have ext: "heap_extends ?h ?h'" by simp
  from mu keep pass ext show ?thesis by blast
qed

end
